theory Spec2Isabelle
  imports Main
begin

section \<open>tk\_tools.groups: the calendar and the spreadsheet pager\<close>

text \<open>
  A shallow embedding of the computing parts of \<^verbatim>\<open>src/tk_tools/groups.py\<close>: the
  argument checks of \<^verbatim>\<open>Grid.__init__\<close> and \<^verbatim>\<open>KeyValueEntry.__init__\<close>, the window
  and the moves of \<^verbatim>\<open>SpreadSheetReader\<close>, and the month grid, the navigation, the
  click handler and the selection accessor of \<^verbatim>\<open>Calendar\<close>. Widgets are records of
  the values they hold, Python exceptions are the left injection of a sum.
\<close>

datatype error = ValueError | OverflowError | IndexError | TypeError | IllegalMonthError

definition and_then :: "error + 'a \<Rightarrow> ('a \<Rightarrow> error + 'b) \<Rightarrow> error + 'b" where
  "and_then r f = (case r of Inl e \<Rightarrow> Inl e | Inr x \<Rightarrow> f x)"

subsection \<open>Python lists\<close>

text \<open>
  \<^verbatim>\<open>xs[i]\<close> for a list of length \<open>n\<close>: positions \<open>0..n-1\<close> are read as they are,
  positions \<open>-n..-1\<close> are read from the end, every other position raises IndexError.
\<close>

definition py_index :: "'a list \<Rightarrow> int \<Rightarrow> error + 'a" where
  "py_index xs i =
     (if 0 \<le> i \<and> i < int (length xs) then Inr (xs ! nat i)
      else if i < 0 \<and> - int (length xs) \<le> i then Inr (xs ! nat (int (length xs) + i))
      else Inl IndexError)"

text \<open>\<^verbatim>\<open>xs[a:b]\<close>: both bounds are clamped to the list, an empty range gives \<^verbatim>\<open>[]\<close>.\<close>

definition slice_bound :: "int \<Rightarrow> int \<Rightarrow> int" where
  "slice_bound n i = (if i < 0 then max (i + n) 0 else min i n)"

definition py_slice :: "'a list \<Rightarrow> int \<Rightarrow> int \<Rightarrow> 'a list" where
  "py_slice xs a b =
     (let n = int (length xs); lo = slice_bound n a; hi = slice_bound n b
      in take (nat (hi - lo)) (drop (nat lo) xs))"

subsection \<open>The standard library: \<^verbatim>\<open>datetime\<close>\<close>

text \<open>
  \<^verbatim>\<open>datetime.datetime(year, month, day)\<close> with the time of day left at midnight, as
  every date of this program is. The constructor raises ValueError outside
  \<^verbatim>\<open>MINYEAR..MAXYEAR\<close>, outside the months and outside the days of the month.
\<close>

record datetime =
  year :: int
  month :: int
  day :: int

definition MINYEAR :: int where "MINYEAR = 1"
definition MAXYEAR :: int where "MAXYEAR = 9999"

definition isleap :: "int \<Rightarrow> bool" where
  "isleap y = (y mod 4 = 0 \<and> (y mod 100 \<noteq> 0 \<or> y mod 400 = 0))"

definition mdays :: "int list" where
  "mdays = [0, 31, 28, 31, 30, 31, 30, 31, 31, 30, 31, 30, 31]"

definition days_in_month :: "int \<Rightarrow> int \<Rightarrow> int" where
  "days_in_month y m = mdays ! nat m + (if m = 2 \<and> isleap y then 1 else 0)"

definition datetime_new :: "int \<Rightarrow> int \<Rightarrow> int \<Rightarrow> error + datetime" where
  "datetime_new y m d =
     (if MINYEAR \<le> y \<and> y \<le> MAXYEAR \<and> 1 \<le> m \<and> m \<le> 12 \<and> 1 \<le> d \<and> d \<le> days_in_month y m
      then Inr \<lparr>year = y, month = m, day = d\<rparr> else Inl ValueError)"

text \<open>
  \<^verbatim>\<open>dt + timedelta(days=k)\<close> moves \<^verbatim>\<open>dt\<close> by \<^verbatim>\<open>k\<close> days and raises OverflowError when
  the result leaves \<^verbatim>\<open>MINYEAR..MAXYEAR\<close>. The move is taken one day at a time; going in
  one direction only, a step leaves the range exactly when the result does.
\<close>

definition next_day :: "datetime \<Rightarrow> error + datetime" where
  "next_day dt =
     (if day dt < days_in_month (year dt) (month dt) then Inr (dt\<lparr>day := day dt + 1\<rparr>)
      else if month dt < 12 then Inr (dt\<lparr>month := month dt + 1, day := 1\<rparr>)
      else if year dt < MAXYEAR then Inr \<lparr>year = year dt + 1, month = 1, day = 1\<rparr>
      else Inl OverflowError)"

definition prev_day :: "datetime \<Rightarrow> error + datetime" where
  "prev_day dt =
     (if 1 < day dt then Inr (dt\<lparr>day := day dt - 1\<rparr>)
      else if 1 < month dt
        then Inr (dt\<lparr>month := month dt - 1, day := days_in_month (year dt) (month dt - 1)\<rparr>)
      else if MINYEAR < year dt then Inr \<lparr>year = year dt - 1, month = 12, day = 31\<rparr>
      else Inl OverflowError)"

fun days_later :: "nat \<Rightarrow> datetime \<Rightarrow> error + datetime" where
  "days_later 0 dt = Inr dt"
| "days_later (Suc k) dt = and_then (next_day dt) (days_later k)"

fun days_earlier :: "nat \<Rightarrow> datetime \<Rightarrow> error + datetime" where
  "days_earlier 0 dt = Inr dt"
| "days_earlier (Suc k) dt = and_then (prev_day dt) (days_earlier k)"

definition datetime_add :: "datetime \<Rightarrow> int \<Rightarrow> error + datetime" where
  "datetime_add dt k = (if 0 \<le> k then days_later (nat k) dt else days_earlier (nat (- k)) dt)"

definition datetime_sub :: "datetime \<Rightarrow> int \<Rightarrow> error + datetime" where
  "datetime_sub dt k = datetime_add dt (- k)"

text \<open>\<^verbatim>\<open>date.toordinal()\<close> and \<^verbatim>\<open>date.weekday()\<close> (Monday is 0).\<close>

definition days_before_year :: "int \<Rightarrow> int" where
  "days_before_year y = (y - 1) * 365 + (y - 1) div 4 - (y - 1) div 100 + (y - 1) div 400"

definition days_before_month :: "int \<Rightarrow> int \<Rightarrow> int" where
  "days_before_month y m = sum_list (map (days_in_month y) [1..m - 1])"

definition toordinal :: "int \<Rightarrow> int \<Rightarrow> int \<Rightarrow> int" where
  "toordinal y m d = days_before_year y + days_before_month y m + d"

definition date_weekday :: "int \<Rightarrow> int \<Rightarrow> int \<Rightarrow> int" where
  "date_weekday y m d = (toordinal y m d + 6) mod 7"

subsection \<open>The standard library: \<^verbatim>\<open>calendar\<close>\<close>

definition SUNDAY :: int where "SUNDAY = 6"

text \<open>\<^verbatim>\<open>calendar.weekday\<close> folds a year outside the range of \<^verbatim>\<open>datetime\<close> into it.\<close>

definition weekday :: "int \<Rightarrow> int \<Rightarrow> int \<Rightarrow> int" where
  "weekday y m d =
     (let y' = (if MINYEAR \<le> y \<and> y \<le> MAXYEAR then y else 2000 + y mod 400)
      in date_weekday y' m d)"

definition monthrange :: "int \<Rightarrow> int \<Rightarrow> error + (int \<times> int)" where
  "monthrange y m =
     (if 1 \<le> m \<and> m \<le> 12 then Inr (weekday y m 1, days_in_month y m)
      else Inl IllegalMonthError)"

text \<open>
  \<^verbatim>\<open>Calendar.itermonthdays\<close>: the days of the month, with zeros before and after to
  fill whole weeks that start on \<^verbatim>\<open>firstweekday\<close>.
\<close>

definition itermonthdays :: "int \<Rightarrow> int \<Rightarrow> int \<Rightarrow> error + int list" where
  "itermonthdays firstweekday y m =
     (case monthrange y m of
        Inl e \<Rightarrow> Inl e
      | Inr (day1, ndays) \<Rightarrow>
          (let days_before = (day1 - firstweekday) mod 7;
               days_after = (firstweekday - day1 - ndays) mod 7
           in Inr (replicate (nat days_before) 0 @ [1..ndays] @ replicate (nat days_after) 0)))"

text \<open>\<^verbatim>\<open>[days[i:i+7] for i in range(0, len(days), 7)]\<close>\<close>

definition weeks_of :: "int list \<Rightarrow> int list list" where
  "weeks_of days =
     map (\<lambda>k. py_slice days (7 * int k) (7 * int k + 7)) [0..<(length days + 6) div 7]"

definition monthdayscalendar :: "int \<Rightarrow> int \<Rightarrow> int \<Rightarrow> error + int list list" where
  "monthdayscalendar firstweekday y m =
     (case itermonthdays firstweekday y m of Inl e \<Rightarrow> Inl e | Inr days \<Rightarrow> Inr (weeks_of days))"

subsection \<open>Formatting and reading back a day number\<close>

definition digit_char :: "nat \<Rightarrow> char" where
  "digit_char n = char_of (48 + n)"

fun decimal :: "nat \<Rightarrow> string" where
  "decimal n = (if n < 10 then [digit_char n] else decimal (n div 10) @ [digit_char (n mod 10)])"

declare decimal.simps [simp del]

text \<open>\<^verbatim>\<open>'%02d' % n\<close>: at least two characters, padded with zeros; the sign counts.\<close>

definition fmt02d :: "int \<Rightarrow> string" where
  "fmt02d n =
     (if n < 0 then CHR ''-'' # decimal (nat (- n))
      else if n < 10 then CHR ''0'' # decimal (nat n)
      else decimal (nat n))"

definition is_digit :: "char \<Rightarrow> bool" where
  "is_digit c = (48 \<le> (of_char c :: nat) \<and> (of_char c :: nat) \<le> 57)"

definition digit_val :: "char \<Rightarrow> nat" where
  "digit_val c = of_char c - 48"

text \<open>
  \<^verbatim>\<open>int(s)\<close> on the strings this program gives it: an optional sign and decimal
  digits. Anything else raises ValueError in Python and is \<open>None\<close> here (Python also
  accepts blanks around the number and underscores between digits; no string of this
  program has them).
\<close>

definition nat_of_digits :: "string \<Rightarrow> nat option" where
  "nat_of_digits s =
     (if s \<noteq> [] \<and> list_all is_digit s
      then Some (foldl (\<lambda>a c. 10 * a + digit_val c) 0 s) else None)"

fun int_of_string :: "string \<Rightarrow> int option" where
  "int_of_string [] = None"
| "int_of_string (c # cs) =
     (if c = CHR ''-'' then map_option (\<lambda>n. - int n) (nat_of_digits cs)
      else if c = CHR ''+'' then map_option int (nat_of_digits cs)
      else map_option int (nat_of_digits (c # cs)))"

text \<open>
  What \<^verbatim>\<open>Treeview.item(item)['values']\<close> gives back for each stored value: tkinter
  turns a value that reads as an integer into an \<^verbatim>\<open>int\<close> and leaves any other as the
  string it is.
\<close>

datatype tkval = TkInt int | TkStr string

definition convert_stringval :: "string \<Rightarrow> tkval" where
  "convert_stringval s = (case int_of_string s of Some n \<Rightarrow> TkInt n | None \<Rightarrow> TkStr s)"

text \<open>Python truth of such a value: \<^verbatim>\<open>0\<close> and \<^verbatim>\<open>''\<close> are false.\<close>

fun truthy :: "tkval \<Rightarrow> bool" where
  "truthy (TkInt n) = (n \<noteq> 0)"
| "truthy (TkStr s) = (s \<noteq> [])"

subsection \<open>\<^verbatim>\<open>Calendar\<close>\<close>

text \<open>
  The state of the widget: \<^verbatim>\<open>_date\<close>, \<^verbatim>\<open>_selection\<close> (the text, the row and the column
  of the last valid click), the values of the six rows \<^verbatim>\<open>_items\<close> of the tree view, and
  the text of the highlighting canvas while it is placed (\<open>None\<close> after
  \<^verbatim>\<open>place_forget\<close>). A row is named by its position in \<^verbatim>\<open>_items\<close>.
\<close>

record calendar =
  priv_date :: datetime
  priv_selection :: "(string \<times> nat \<times> string) option"
  priv_items :: "string list list"
  priv_canvas :: "string option"

text \<open>\<^verbatim>\<open>[('%02d' % day) if day else '' for day in week]\<close>\<close>

definition fmt_week :: "int list \<Rightarrow> string list" where
  "fmt_week week = map (\<lambda>d. if d \<noteq> 0 then fmt02d d else []) week"

text \<open>
  \<^verbatim>\<open>_build_calendar\<close>: row \<^verbatim>\<open>indx\<close> of the six gets week \<^verbatim>\<open>indx\<close> of the month, or no
  values at all when the month has no such week. (The header text is left out.)
\<close>

definition build_calendar :: "calendar \<Rightarrow> error + calendar" where
  "build_calendar s =
     (case monthdayscalendar SUNDAY (year (priv_date s)) (month (priv_date s)) of
        Inl e \<Rightarrow> Inl e
      | Inr cal \<Rightarrow>
          Inr (s\<lparr>priv_items :=
                 map (\<lambda>indx. fmt_week (if indx < length cal then cal ! indx else [])) [0..<6]\<rparr>))"

text \<open>
  \<^verbatim>\<open>Calendar.__init__\<close> with the \<^verbatim>\<open>year\<close> and \<^verbatim>\<open>month\<close> options: the first day of the
  month, nothing selected, six rows without values, then \<^verbatim>\<open>_build_calendar\<close>.
\<close>

definition Calendar_init :: "int \<Rightarrow> int \<Rightarrow> error + calendar" where
  "Calendar_init y m =
     and_then (datetime_new y m 1)
       (\<lambda>d. build_calendar
              \<lparr>priv_date = d, priv_selection = None, priv_items = replicate 6 [], priv_canvas = None\<rparr>)"

definition prev_month :: "calendar \<Rightarrow> error + calendar" where
  "prev_month s =
     (let s1 = s\<lparr>priv_canvas := None\<rparr> in
      and_then (datetime_sub (priv_date s1) 1) (\<lambda>d1.
      and_then (datetime_new (year d1) (month d1) 1) (\<lambda>d2.
      build_calendar (s1\<lparr>priv_date := d2\<rparr>))))"

definition next_month :: "calendar \<Rightarrow> error + calendar" where
  "next_month s =
     (let s1 = s\<lparr>priv_canvas := None\<rparr>; y = year (priv_date s1); m = month (priv_date s1) in
      and_then (monthrange y m) (\<lambda>r.
      and_then (datetime_add (priv_date s1) (snd r + 1)) (\<lambda>d1.
      and_then (datetime_new (year d1) (month d1) 1) (\<lambda>d2.
      build_calendar (s1\<lparr>priv_date := d2\<rparr>)))))"

text \<open>
  The property \<^verbatim>\<open>selection\<close>: nothing while \<^verbatim>\<open>_selection\<close> is unset, else the date made
  of the displayed year and month and the stored day text.
\<close>

definition selection :: "calendar \<Rightarrow> error + datetime option" where
  "selection s =
     (case priv_selection s of
        None \<Rightarrow> Inr None
      | Some (text, item, col) \<Rightarrow>
          (case int_of_string text of
             None \<Rightarrow> Inl ValueError
           | Some d \<Rightarrow> and_then (datetime_new (year (priv_date s)) (month (priv_date s)) d)
                         (\<lambda>dt. Inr (Some dt))))"

text \<open>
  A click as the tree view resolves it: \<^verbatim>\<open>identify_row\<close> gives a row, here \<open>Some i\<close>
  for row \<open>i\<close> of \<^verbatim>\<open>_items\<close> and \<open>None\<close> for the weekday header or no row at all;
  \<^verbatim>\<open>identify_column\<close> gives \<^verbatim>\<open>'#n'\<close> or the empty string outside the columns;
  \<^verbatim>\<open>bbox\<close> gives the cell's box, or nothing while the calendar is not visible.
\<close>

record event =
  row_item :: "nat option"
  column :: string
  bbox :: "(int \<times> int \<times> int \<times> int) option"

text \<open>
  \<^verbatim>\<open>_pressed\<close>, branch by branch. The callback is the caller's and is left out.
\<close>

definition pressed :: "calendar \<Rightarrow> event \<Rightarrow> error + calendar" where
  "pressed s evt =
     (if column evt = [] then Inr s
      else case row_item evt of
        None \<Rightarrow> Inr s
      | Some i \<Rightarrow>
          if length (priv_items s) \<le> i then Inr s
          else
            let item_values = map convert_stringval (priv_items s ! i) in
            if length item_values = 0 then Inr s
            else
              and_then (py_index (column evt) 1) (\<lambda>c.
              and_then (case int_of_string [c] of None \<Rightarrow> Inl ValueError | Some n \<Rightarrow> Inr n) (\<lambda>n.
              and_then (py_index item_values (n - 1)) (\<lambda>text.
                if truthy text then
                  (case bbox evt of
                     None \<Rightarrow> Inr s
                   | Some b \<Rightarrow>
                       (case text of
                          TkStr t \<Rightarrow> Inl TypeError
                        | TkInt d \<Rightarrow>
                            Inr (s\<lparr>priv_selection := Some (fmt02d d, i, column evt),
                                   priv_canvas := Some (fmt02d d)\<rparr>)))
                else Inr s))))"

subsection \<open>\<^verbatim>\<open>Grid\<close> and \<^verbatim>\<open>EntryGrid\<close>\<close>

text \<open>
  A grid holds the texts of its header labels, its rows (the text of every entry widget)
  and \<^verbatim>\<open>num_of_columns\<close>. An optional list argument is \<open>None\<close> when it is left out;
  Python's \<^verbatim>\<open>if headers:\<close> is false for \<^verbatim>\<open>None\<close> and for the empty list alike.
\<close>

record grid =
  headers :: "string list"
  rows :: "string list list"
  num_of_columns :: int

definition given :: "'a list option \<Rightarrow> 'a list" where
  "given xs = (case xs of None \<Rightarrow> [] | Some l \<Rightarrow> l)"

text \<open>\<^verbatim>\<open>Grid.__init__\<close>, which \<^verbatim>\<open>EntryGrid.__init__\<close> calls unchanged.\<close>

definition Grid_init :: "int \<Rightarrow> string list option \<Rightarrow> error + grid" where
  "Grid_init n hs =
     (if given hs \<noteq> [] then
        (if int (length (given hs)) \<noteq> n then Inl ValueError
         else Inr \<lparr>headers = given hs, rows = [], num_of_columns = n\<rparr>)
      else Inr \<lparr>headers = [], rows = [], num_of_columns = n\<rparr>)"

text \<open>
  \<^verbatim>\<open>EntryGrid.add_row\<close>: one entry for each element of \<^verbatim>\<open>data\<close>, or \<^verbatim>\<open>num_of_columns\<close>
  blank entries when there is no data; \<^verbatim>\<open>self.rows[-1][-1]\<close> raises on a row without
  entries.
\<close>

definition add_row :: "grid \<Rightarrow> string list option \<Rightarrow> error + grid" where
  "add_row g data =
     (if headers g \<noteq> [] \<and> given data \<noteq> [] \<and> length (headers g) \<noteq> length (given data)
      then Inl ValueError
      else
        let row = (if given data \<noteq> [] then given data
                   else replicate (nat (num_of_columns g)) [])
        in if row = [] then Inl IndexError else Inr (g\<lparr>rows := rows g @ [row]\<rparr>))"

text \<open>\<^verbatim>\<open>Grid.remove_row\<close> (\<^verbatim>\<open>list.pop\<close> takes an index as \<^verbatim>\<open>xs[i]\<close> does) and \<^verbatim>\<open>Grid.clear\<close>.\<close>

definition pop_at :: "'a list \<Rightarrow> nat \<Rightarrow> 'a list" where
  "pop_at xs k = take k xs @ drop (Suc k) xs"

definition remove_row :: "grid \<Rightarrow> int \<Rightarrow> error + grid" where
  "remove_row g row_number =
     (if length (rows g) = 0 then Inr g
      else if 0 \<le> row_number \<and> row_number < int (length (rows g))
        then Inr (g\<lparr>rows := pop_at (rows g) (nat row_number)\<rparr>)
      else if row_number < 0 \<and> - int (length (rows g)) \<le> row_number
        then Inr (g\<lparr>rows := pop_at (rows g) (nat (int (length (rows g)) + row_number))\<rparr>)
      else Inl IndexError)"

fun clear_loop :: "nat \<Rightarrow> grid \<Rightarrow> error + grid" where
  "clear_loop 0 g = Inr g"
| "clear_loop (Suc k) g = and_then (remove_row g 0) (clear_loop k)"

definition clear :: "grid \<Rightarrow> error + grid" where
  "clear g = clear_loop (length (rows g)) g"

subsection \<open>\<^verbatim>\<open>KeyValueEntry\<close>\<close>

record key_value_entry =
  keys :: "string list"
  defaults :: "string option list"
  unit_labels :: "string list"
  enables :: "bool option list"

definition kv_add_row ::
  "key_value_entry \<Rightarrow> string \<Rightarrow> string option \<Rightarrow> string option \<Rightarrow> bool option
     \<Rightarrow> key_value_entry" where
  "kv_add_row w key dflt unit_label enable =
     w\<lparr>keys := keys w @ [key],
       defaults := defaults w @ [dflt],
       unit_labels := unit_labels w @ [case unit_label of None \<Rightarrow> [] | Some u \<Rightarrow> u],
       enables := enables w @ [enable]\<rparr>"

text \<open>\<^verbatim>\<open>xs[i] if xs else None\<close>\<close>

definition item_or_none :: "'a list \<Rightarrow> int \<Rightarrow> error + 'a option" where
  "item_or_none xs i =
     (if xs \<noteq> [] then and_then (py_index xs i) (\<lambda>x. Inr (Some x)) else Inr None)"

fun kv_fill ::
  "string list \<Rightarrow> string list \<Rightarrow> string list \<Rightarrow> bool list \<Rightarrow> nat list
     \<Rightarrow> key_value_entry \<Rightarrow> error + key_value_entry" where
  "kv_fill ks ds us es [] w = Inr w"
| "kv_fill ks ds us es (i # rest) w =
     and_then (py_index ks (int i)) (\<lambda>k.
     and_then (item_or_none ds (int i)) (\<lambda>d.
     and_then (item_or_none us (int i)) (\<lambda>u.
     and_then (item_or_none es (int i)) (\<lambda>e.
       kv_fill ks ds us es rest (kv_add_row w k d u e)))))"

text \<open>\<^verbatim>\<open>KeyValueEntry.__init__\<close>: the three checks, then a row for every key.\<close>

definition KeyValueEntry_init ::
  "string list \<Rightarrow> string list option \<Rightarrow> string list option \<Rightarrow> bool list option
     \<Rightarrow> error + key_value_entry" where
  "KeyValueEntry_init ks ds us es =
     (if given ds \<noteq> [] \<and> length ks \<noteq> length (given ds) then Inl ValueError
      else if given us \<noteq> [] \<and> length ks \<noteq> length (given us) then Inl ValueError
      else if given es \<noteq> [] \<and> length ks \<noteq> length (given es) then Inl ValueError
      else kv_fill ks (given ds) (given us) (given es) [0..<length ks]
             \<lparr>keys = [], defaults = [], unit_labels = [], enables = []\<rparr>)"

subsection \<open>\<^verbatim>\<open>SpreadSheetReader\<close>\<close>

text \<open>
  The reader keeps the page size, the offset \<^verbatim>\<open>current_position\<close> and its entry grid.
  \<open>sheet\<close> is the sheet of the workbook at \<^verbatim>\<open>path\<close>, a list of rows of cell texts,
  which every \<^verbatim>\<open>read_xl\<close> opens again.
\<close>

record reader =
  sheet :: "string list list"
  rows_to_display :: int
  cols_to_display :: int
  current_position :: "int \<times> int"
  entry_grid :: grid

text \<open>
  The loop of \<^verbatim>\<open>read_xl\<close> over \<^verbatim>\<open>enumerate(sheet.get_rows())\<close>: \<open>i\<close> is the index of the
  first row of the list. The row is added first, the \<^verbatim>\<open>break\<close> is tested after it.
\<close>

fun read_xl_loop ::
  "int \<Rightarrow> int \<Rightarrow> int \<Rightarrow> int \<Rightarrow> int \<Rightarrow> string list list \<Rightarrow> grid \<Rightarrow> error + grid" where
  "read_xl_loop rtd ctd row_number column_number i [] g = Inr g"
| "read_xl_loop rtd ctd row_number column_number i (row # rest) g =
     and_then
       (if row_number \<le> i
        then add_row g (Some (py_slice row column_number (column_number + ctd)))
        else Inr g)
       (\<lambda>g'. if rtd + row_number \<le> i then Inr g'
             else read_xl_loop rtd ctd row_number column_number (i + 1) rest g')"

definition read_xl :: "reader \<Rightarrow> int \<Rightarrow> int \<Rightarrow> error + reader" where
  "read_xl r row_number column_number =
     and_then
       (read_xl_loop (rows_to_display r) (cols_to_display r) row_number column_number 0
          (sheet r) (entry_grid r))
       (\<lambda>g. Inr (r\<lparr>entry_grid := g\<rparr>))"

definition SpreadSheetReader_init :: "string list list \<Rightarrow> int \<Rightarrow> int \<Rightarrow> error + reader" where
  "SpreadSheetReader_init sh rtd ctd =
     and_then (Grid_init 8 None) (\<lambda>g.
       read_xl \<lparr>sheet = sh, rows_to_display = rtd, cols_to_display = ctd,
                current_position = (0, 0), entry_grid = g\<rparr> 0 0)"

text \<open>The tail of every move: the grid is already cleared, store the offset and read.\<close>

definition reread :: "reader \<Rightarrow> grid \<Rightarrow> int \<times> int \<Rightarrow> error + reader" where
  "reread r g pos =
     read_xl (r\<lparr>entry_grid := g, current_position := pos\<rparr>) (fst pos) (snd pos)"

definition move_right :: "bool \<Rightarrow> reader \<Rightarrow> error + reader" where
  "move_right page r =
     (case current_position r of (row_pos, col_pos) \<Rightarrow>
        and_then (clear (entry_grid r)) (\<lambda>g.
          reread r g (if page then (row_pos, col_pos + cols_to_display r)
                      else (row_pos, col_pos + 1))))"

definition move_left :: "bool \<Rightarrow> reader \<Rightarrow> error + reader" where
  "move_left page r =
     (case current_position r of (row_pos, col_pos) \<Rightarrow>
        if \<not> page \<and> col_pos = 0 then Inr r
        else if page \<and> col_pos < cols_to_display r then Inr r
        else
          and_then (clear (entry_grid r)) (\<lambda>g.
            reread r g (if page then (row_pos, col_pos - cols_to_display r)
                        else (row_pos, col_pos - 1))))"

definition move_down :: "bool \<Rightarrow> reader \<Rightarrow> error + reader" where
  "move_down page r =
     (case current_position r of (row_pos, col_pos) \<Rightarrow>
        and_then (clear (entry_grid r)) (\<lambda>g.
          reread r g (if page then (row_pos + rows_to_display r, col_pos)
                      else (row_pos + 1, col_pos))))"

definition move_up :: "bool \<Rightarrow> reader \<Rightarrow> error + reader" where
  "move_up page r =
     (case current_position r of (row_pos, col_pos) \<Rightarrow>
        if \<not> page \<and> row_pos = 0 then Inr r
        else if page \<and> row_pos < rows_to_display r then Inr r
        else
          and_then (clear (entry_grid r)) (\<lambda>g.
            reread r g (if page then (row_pos - rows_to_display r, col_pos)
                        else (row_pos - 1, col_pos))))"

text \<open>The options \<^verbatim>\<open>cal['year']\<close> and \<^verbatim>\<open>cal['month']\<close> of a calendar, if there is one.\<close>

definition year_month :: "error + calendar \<Rightarrow> error + (int \<times> int)" where
  "year_month r = and_then r (\<lambda>s. Inr (year (priv_date s), month (priv_date s)))"

text \<open>
  The tree view has one column for each name of \<^verbatim>\<open>formatweekheader(3).split()\<close>, the
  seven weekdays, and shows every row in all of them: a column for which the row has no
  value shows as an empty cell.
\<close>

definition tree_columns :: nat where "tree_columns = 7"

definition shown_row :: "string list \<Rightarrow> string list" where
  "shown_row vals = map (\<lambda>j. if j < length vals then vals ! j else []) [0..<tree_columns]"

definition shown_grid :: "calendar \<Rightarrow> string list list" where
  "shown_grid s = map shown_row (priv_items s)"

text \<open>A click on column \<^verbatim>\<open>'#n'\<close> of row \<open>i\<close> of a visible calendar.\<close>

definition click_on :: "nat \<Rightarrow> nat \<Rightarrow> calendar \<Rightarrow> error + calendar" where
  "click_on i n s =
     pressed s \<lparr>row_item = Some i, column = CHR ''#'' # decimal n, bbox = Some (0, 0, 20, 20)\<rparr>"

text \<open>The calendar as \<^verbatim>\<open>__init__\<close> has it before it calls \<^verbatim>\<open>_build_calendar\<close>.\<close>

definition unbuilt :: "int \<Rightarrow> int \<Rightarrow> calendar" where
  "unbuilt y m =
     \<lparr>priv_date = \<lparr>year = y, month = m, day = 1\<rparr>, priv_selection = None,
      priv_items = replicate 6 [], priv_canvas = None\<rparr>"

subsection \<open>Example states\<close>

definition blank_grid :: grid where
  "blank_grid = \<lparr>headers = [], rows = [], num_of_columns = 8\<rparr>"

definition reader_at :: "int \<times> int \<Rightarrow> reader" where
  "reader_at pos =
     \<lparr>sheet = [[''a'', ''b''], [''c'', ''d''], [''e'', ''f'']],
      rows_to_display = 20, cols_to_display = 8,
      current_position = pos, entry_grid = blank_grid\<rparr>"

section \<open>Properties of the spreadsheet pager\<close>

lemma remove_row_first:
  "rows g \<noteq> [] \<Longrightarrow> remove_row g 0 = Inr (g\<lparr>rows := tl (rows g)\<rparr>)"
  by (cases "rows g") (simp_all add: remove_row_def pop_at_def)

lemma clear_loop_all:
  "length (rows g) = k \<Longrightarrow> clear_loop k g = Inr (g\<lparr>rows := []\<rparr>)"
proof (induction k arbitrary: g)
  case 0
  then show ?case by simp
next
  case (Suc k)
  then have ne: "rows g \<noteq> []" by auto
  have "length (rows (g\<lparr>rows := tl (rows g)\<rparr>)) = k" using Suc.prems by simp
  from Suc.IH [OF this] show ?case
    by (simp add: remove_row_first [OF ne] and_then_def)
qed

lemma clear_empties: "clear g = Inr (g\<lparr>rows := []\<rparr>)"
  by (simp add: clear_def clear_loop_all)

text \<open>
  The grid of a reader has no headers and eight columns, so \<^verbatim>\<open>add_row\<close> cannot raise
  there, and neither can the loop of \<^verbatim>\<open>read_xl\<close>.
\<close>

lemma add_row_plain:
  "headers g = [] \<Longrightarrow> 0 < num_of_columns g \<Longrightarrow>
   \<exists>row. add_row g data = Inr (g\<lparr>rows := rows g @ [row]\<rparr>)"
  by (auto simp: add_row_def Let_def)

lemma read_xl_loop_returns:
  "headers g = [] \<Longrightarrow> 0 < num_of_columns g \<Longrightarrow>
   \<exists>rs. read_xl_loop rtd ctd rn cn i sh g = Inr (g\<lparr>rows := rs\<rparr>)"
proof (induction sh arbitrary: g i)
  case Nil
  have "g = g\<lparr>rows := rows g\<rparr>" by simp
  then show ?case by (metis read_xl_loop.simps(1))
next
  case (Cons row rest)
  show ?case
  proof (cases "rn \<le> i")
    case True
    from add_row_plain [OF Cons.prems] obtain w where
      w: "add_row g (Some (py_slice row cn (cn + ctd))) = Inr (g\<lparr>rows := rows g @ [w]\<rparr>)"
      by blast
    let ?g = "g\<lparr>rows := rows g @ [w]\<rparr>"
    have "headers ?g = []" "0 < num_of_columns ?g" using Cons.prems by simp_all
    from Cons.IH [OF this, of "i + 1"] obtain rs where
      "read_xl_loop rtd ctd rn cn (i + 1) rest ?g = Inr (?g\<lparr>rows := rs\<rparr>)" by blast
    with True w show ?thesis by (auto simp: and_then_def)
  next
    case False
    from Cons.IH [OF Cons.prems, of "i + 1"] obtain rs where
      "read_xl_loop rtd ctd rn cn (i + 1) rest g = Inr (g\<lparr>rows := rs\<rparr>)" by blast
    with False show ?thesis
      by (cases "rtd + rn \<le> i") (auto simp: and_then_def intro: exI [of _ "rows g"])
  qed
qed

lemma reread_returns:
  assumes "headers g = []" "0 < num_of_columns g"
  shows "\<exists>rs. reread r g pos = Inr (r\<lparr>current_position := pos, entry_grid := g\<lparr>rows := rs\<rparr>\<rparr>)"
proof -
  from read_xl_loop_returns [OF assms] obtain rs where
    "read_xl_loop (rows_to_display r) (cols_to_display r) (fst pos) (snd pos) 0 (sheet r) g
       = Inr (g\<lparr>rows := rs\<rparr>)" by blast
  then show ?thesis by (auto simp: reread_def read_xl_def and_then_def)
qed

lemma move_applied:
  assumes "headers (entry_grid r) = []" "0 < num_of_columns (entry_grid r)"
  shows "\<exists>r'. and_then (clear (entry_grid r)) (\<lambda>g. reread r g pos) = Inr r'
           \<and> current_position r' = pos
           \<and> headers (entry_grid r') = []
           \<and> num_of_columns (entry_grid r') = num_of_columns (entry_grid r)
           \<and> sheet r' = sheet r \<and> rows_to_display r' = rows_to_display r
           \<and> cols_to_display r' = cols_to_display r"
proof -
  let ?g = "(entry_grid r)\<lparr>rows := []\<rparr>"
  have "headers ?g = []" "0 < num_of_columns ?g" using assms by simp_all
  from reread_returns [OF this, of r pos] obtain rs where
    "reread r ?g pos = Inr (r\<lparr>current_position := pos, entry_grid := ?g\<lparr>rows := rs\<rparr>\<rparr>)"
    by blast
  then show ?thesis using assms by (simp add: clear_empties and_then_def)
qed

lemma reader_at_grid:
  "headers (entry_grid (reader_at pos)) = []" "0 < num_of_columns (entry_grid (reader_at pos))"
  "current_position (reader_at pos) = pos" "rows_to_display (reader_at pos) = 20"
  "cols_to_display (reader_at pos) = 8"
  by (simp_all add: reader_at_def blank_grid_def)

text \<open>
  C6. For every offset, \<^verbatim>\<open>move_down\<close> and \<^verbatim>\<open>move_right\<close> are applied whatever the size of
  the sheet: they return, a single move adds 1 to the row (column) offset and a page move
  adds \<^verbatim>\<open>rows_to_display\<close> (\<^verbatim>\<open>cols_to_display\<close>). The reader's grid is as its constructor
  makes it: no headers, a positive number of columns.
\<close>

theorem move_down_right_unconditional:
  assumes "headers (entry_grid r) = []" and "0 < num_of_columns (entry_grid r)"
    and "current_position r = (row_pos, col_pos)"
  shows "(\<exists>r'. move_down False r = Inr r' \<and> current_position r' = (row_pos + 1, col_pos))
       \<and> (\<exists>r'. move_down True r = Inr r'
             \<and> current_position r' = (row_pos + rows_to_display r, col_pos))
       \<and> (\<exists>r'. move_right False r = Inr r' \<and> current_position r' = (row_pos, col_pos + 1))
       \<and> (\<exists>r'. move_right True r = Inr r'
             \<and> current_position r' = (row_pos, col_pos + cols_to_display r))"
  using move_applied [OF assms(1,2)] assms(3)
  by (simp add: move_down_def move_right_def) blast

theorem move_down_right_unconditional_witness:
  "headers (entry_grid (reader_at (100, 50))) = []
   \<and> 0 < num_of_columns (entry_grid (reader_at (100, 50)))
   \<and> current_position (reader_at (100, 50)) = (100, 50)
   \<and> (\<exists>r'. move_down False (reader_at (100, 50)) = Inr r' \<and> current_position r' = (101, 50))
   \<and> (\<exists>r'. move_down True (reader_at (100, 50)) = Inr r' \<and> current_position r' = (120, 50))
   \<and> (\<exists>r'. move_right False (reader_at (100, 50)) = Inr r' \<and> current_position r' = (100, 51))
   \<and> (\<exists>r'. move_right True (reader_at (100, 50)) = Inr r' \<and> current_position r' = (100, 58))"
  using move_down_right_unconditional [of "reader_at (100, 50)" 100 50]
  by (simp add: reader_at_grid)

text \<open>
  C5. A single move up (left) from row (column) offset 0 returns the reader unchanged. A
  page move up (left) returns the reader unchanged when the row (column) offset is below
  \<^verbatim>\<open>rows_to_display\<close> (\<^verbatim>\<open>cols_to_display\<close>), which is when the new offset would be
  negative, and otherwise is applied: the offset goes down by the page size.
\<close>

theorem move_up_left_refused:
  assumes "headers (entry_grid r) = []" and "0 < num_of_columns (entry_grid r)"
    and "current_position r = (row_pos, col_pos)"
  shows "(row_pos = 0 \<longrightarrow> move_up False r = Inr r)
       \<and> (col_pos = 0 \<longrightarrow> move_left False r = Inr r)
       \<and> (row_pos < rows_to_display r \<longrightarrow> move_up True r = Inr r)
       \<and> (col_pos < cols_to_display r \<longrightarrow> move_left True r = Inr r)
       \<and> (\<not> row_pos < rows_to_display r \<longrightarrow>
            (\<exists>r'. move_up True r = Inr r'
               \<and> current_position r' = (row_pos - rows_to_display r, col_pos)))
       \<and> (\<not> col_pos < cols_to_display r \<longrightarrow>
            (\<exists>r'. move_left True r = Inr r'
               \<and> current_position r' = (row_pos, col_pos - cols_to_display r)))
       \<and> (row_pos < rows_to_display r) = (row_pos - rows_to_display r < 0)
       \<and> (col_pos < cols_to_display r) = (col_pos - cols_to_display r < 0)"
  using move_applied [OF assms(1,2)] assms(3)
  by (simp add: move_up_def move_left_def) blast

theorem move_up_left_refused_witness:
  "move_up False (reader_at (0, 0)) = Inr (reader_at (0, 0))
   \<and> move_left False (reader_at (0, 0)) = Inr (reader_at (0, 0))
   \<and> move_up True (reader_at (5, 0)) = Inr (reader_at (5, 0))
   \<and> move_left True (reader_at (5, 0)) = Inr (reader_at (5, 0))
   \<and> (\<exists>r'. move_up True (reader_at (25, 9)) = Inr r' \<and> current_position r' = (5, 9))
   \<and> (\<exists>r'. move_left True (reader_at (25, 9)) = Inr r' \<and> current_position r' = (25, 1))"
  using move_up_left_refused [of "reader_at (0, 0)" 0 0]
    move_up_left_refused [of "reader_at (5, 0)" 5 0]
    move_up_left_refused [of "reader_at (25, 9)" 25 9]
  by (simp add: reader_at_grid)


text \<open>
  C2 (the window of \<^verbatim>\<open>read_xl\<close>). The claim holds at most \<^verbatim>\<open>rows_to_display\<close> rows; the
  loop tests its \<^verbatim>\<open>break\<close> after adding the row, so it adds row \<^verbatim>\<open>rows_to_display\<close> too.
  With four rows in the sheet and \<^verbatim>\<open>rows_to_display = 2\<close>, three rows reach the grid.
\<close>

theorem read_xl_one_row_too_many:
  "\<exists>r. SpreadSheetReader_init [[''a''], [''b''], [''c''], [''d'']] 2 8 = Inr r
       \<and> rows_to_display r = 2 \<and> current_position r = (0, 0)
       \<and> rows (entry_grid r) = [[''a''], [''b''], [''c'']]
       \<and> length (rows (entry_grid r)) = 3"
  by (simp add: SpreadSheetReader_init_def Grid_init_def given_def read_xl_def and_then_def
      add_row_def py_slice_def slice_bound_def)

section \<open>Properties of the constructors\<close>

lemma item_or_none_ok:
  "xs = [] \<or> i < length xs \<Longrightarrow>
   item_or_none xs (int i) = Inr (if xs = [] then None else Some (xs ! i))"
  by (auto simp: item_or_none_def py_index_def and_then_def)

lemma kv_fill_ok:
  assumes "ds = [] \<or> length ds = length ks" "us = [] \<or> length us = length ks"
    "es = [] \<or> length es = length ks"
  shows "\<forall>i\<in>set idx. i < length ks \<Longrightarrow>
     \<exists>w'. kv_fill ks ds us es idx w = Inr w' \<and> keys w' = keys w @ map ((!) ks) idx"
proof (induction idx arbitrary: w)
  case Nil
  then show ?case by simp
next
  case (Cons i rest)
  then have i: "i < length ks" and rest: "\<forall>j\<in>set rest. j < length ks" by simp_all
  have k: "py_index ks (int i) = Inr (ks ! i)" using i by (simp add: py_index_def)
  have d: "item_or_none ds (int i) = Inr (if ds = [] then None else Some (ds ! i))"
    using assms(1) i by (intro item_or_none_ok) auto
  have u: "item_or_none us (int i) = Inr (if us = [] then None else Some (us ! i))"
    using assms(2) i by (intro item_or_none_ok) auto
  have e: "item_or_none es (int i) = Inr (if es = [] then None else Some (es ! i))"
    using assms(3) i by (intro item_or_none_ok) auto
  let ?w = "kv_add_row w (ks ! i) (if ds = [] then None else Some (ds ! i))
              (if us = [] then None else Some (us ! i)) (if es = [] then None else Some (es ! i))"
  have kw: "keys ?w = keys w @ [ks ! i]" by (simp add: kv_add_row_def)
  from Cons.IH [OF rest, of ?w] obtain w' where
    w': "kv_fill ks ds us es rest ?w = Inr w'" "keys w' = keys ?w @ map ((!) ks) rest" by blast
  have "kv_fill ks ds us es (i # rest) w = kv_fill ks ds us es rest ?w"
    by (simp only: kv_fill.simps k d u e and_then_def sum.case)
  with w' kw show ?case by simp
qed

lemma KeyValueEntry_init_ok:
  assumes "given ds = [] \<or> length (given ds) = length ks"
    "given us = [] \<or> length (given us) = length ks"
    "given es = [] \<or> length (given es) = length ks"
  shows "\<exists>w. KeyValueEntry_init ks ds us es = Inr w \<and> keys w = ks"
proof -
  have "\<forall>i\<in>set [0..<length ks]. i < length ks" by simp
  from kv_fill_ok [OF assms this, of "\<lparr>keys = [], defaults = [], unit_labels = [], enables = []\<rparr>"]
  obtain w' where fill: "kv_fill ks (given ds) (given us) (given es) [0..<length ks]
      \<lparr>keys = [], defaults = [], unit_labels = [], enables = []\<rparr> = Inr w'"
    and kw: "keys w' = map ((!) ks) [0..<length ks]" by auto
  have "map ((!) ks) [0..<length ks] = ks" by (rule map_nth)
  with kw have kw': "keys w' = ks" by simp
  have c1: "(given ds \<noteq> [] \<and> length ks \<noteq> length (given ds)) = False"
    using assms(1) by auto
  have c2: "(given us \<noteq> [] \<and> length ks \<noteq> length (given us)) = False"
    using assms(2) by auto
  have c3: "(given es \<noteq> [] \<and> length ks \<noteq> length (given es)) = False"
    using assms(3) by auto
  have "KeyValueEntry_init ks ds us es
      = kv_fill ks (given ds) (given us) (given es) [0..<length ks]
          \<lparr>keys = [], defaults = [], unit_labels = [], enables = []\<rparr>"
    unfolding KeyValueEntry_init_def by (simp only: c1 c2 c3 if_False)
  with fill kw' show ?thesis by simp
qed

text \<open>
  C9, as amended. \<^verbatim>\<open>Grid.__init__\<close> raises ValueError exactly when \<^verbatim>\<open>headers\<close> is given,
  is not empty and its length differs from \<^verbatim>\<open>num_of_columns\<close>, and returns a grid
  otherwise; \<^verbatim>\<open>KeyValueEntry.__init__\<close> raises ValueError exactly when one of
  \<^verbatim>\<open>defaults\<close>, \<^verbatim>\<open>unit_labels\<close>, \<^verbatim>\<open>enables\<close> is given, is not empty and its length
  differs from that of \<^verbatim>\<open>keys\<close>, and otherwise returns a form with a row for every key.
  (\<open>given xs\<close> is the list, or the empty list when the argument is left out.)
\<close>

theorem construction_checks_given_lists:
  "(Grid_init n hs = Inl ValueError) = (given hs \<noteq> [] \<and> int (length (given hs)) \<noteq> n)
   \<and> (\<exists>g. Grid_init n hs = Inr g) = (given hs = [] \<or> int (length (given hs)) = n)
   \<and> (KeyValueEntry_init ks ds us es = Inl ValueError)
       = ((given ds \<noteq> [] \<and> length ks \<noteq> length (given ds))
          \<or> (given us \<noteq> [] \<and> length ks \<noteq> length (given us))
          \<or> (given es \<noteq> [] \<and> length ks \<noteq> length (given es)))
   \<and> (\<exists>w. KeyValueEntry_init ks ds us es = Inr w \<and> keys w = ks)
       = ((given ds = [] \<or> length ks = length (given ds))
          \<and> (given us = [] \<or> length ks = length (given us))
          \<and> (given es = [] \<or> length ks = length (given es)))"
proof -
  have g1: "(Grid_init n hs = Inl ValueError) = (given hs \<noteq> [] \<and> int (length (given hs)) \<noteq> n)"
    by (simp add: Grid_init_def)
  have g2: "(\<exists>g. Grid_init n hs = Inr g) = (given hs = [] \<or> int (length (given hs)) = n)"
    by (simp add: Grid_init_def)
  let ?ok = "(given ds = [] \<or> length ks = length (given ds))
          \<and> (given us = [] \<or> length ks = length (given us))
          \<and> (given es = [] \<or> length ks = length (given es))"
  have ok: "\<exists>w. KeyValueEntry_init ks ds us es = Inr w \<and> keys w = ks" if ?ok
    using that by (intro KeyValueEntry_init_ok) auto
  have bad: "KeyValueEntry_init ks ds us es = Inl ValueError" if "\<not> ?ok"
    using that by (auto simp: KeyValueEntry_init_def)
  have k1: "(KeyValueEntry_init ks ds us es = Inl ValueError) = (\<not> ?ok)"
  proof (cases ?ok)
    case True
    from ok [OF True] show ?thesis using True by auto
  next
    case False
    from bad [OF False] show ?thesis using False by simp
  qed
  have k2: "(\<exists>w. KeyValueEntry_init ks ds us es = Inr w \<and> keys w = ks) = ?ok"
  proof (cases ?ok)
    case True
    from ok [OF True] show ?thesis using True by simp
  next
    case False
    from bad [OF False] show ?thesis using False by simp
  qed
  show ?thesis
    apply (intro conjI)
       apply (rule g1)
      apply (rule g2)
     apply (simp only: k1 de_Morgan_conj de_Morgan_disj not_not)
    apply (rule k2)
    done
qed

theorem construction_checks_given_lists_witness:
  "Grid_init 2 (Some [''a'', ''b'', ''c'']) = Inl ValueError
   \<and> (\<exists>g. Grid_init 3 (Some [''a'', ''b'', ''c'']) = Inr g)
   \<and> KeyValueEntry_init [''k''] (Some [''1'', ''2'']) None None = Inl ValueError
   \<and> KeyValueEntry_init [''k''] None None (Some [True, False]) = Inl ValueError
   \<and> (\<exists>w. KeyValueEntry_init [''k'', ''l''] (Some [''1'', ''2'']) None None = Inr w
          \<and> keys w = [''k'', ''l''])"
  using construction_checks_given_lists [of 2 "Some [''a'', ''b'', ''c'']" "[''k'']" "Some [''1'', ''2'']" None None]
    construction_checks_given_lists [of 3 "Some [''a'', ''b'', ''c'']" "[''k'']" None None "Some [True, False]"]
    construction_checks_given_lists [of 3 None "[''k'', ''l'']" "Some [''1'', ''2'']" None None]
  by (simp add: given_def)

text \<open>
  C9 as stated fails: a list that is given but empty differs in length from three columns
  (from one key) and no error is raised.
\<close>

theorem empty_list_is_not_checked:
  "int (length ([] :: string list)) \<noteq> 3
   \<and> Grid_init 3 (Some []) = Inr \<lparr>headers = [], rows = [], num_of_columns = 3\<rparr>
   \<and> length [''k''] \<noteq> length ([] :: string list)
   \<and> KeyValueEntry_init [''k''] (Some []) None None
       = Inr \<lparr>keys = [''k''], defaults = [None], unit_labels = [[]], enables = [None]\<rparr>"
  by (simp add: Grid_init_def KeyValueEntry_init_def given_def py_index_def item_or_none_def
      and_then_def kv_add_row_def)

section \<open>Properties of the calendar\<close>

subsection \<open>Month navigation\<close>

lemma and_then_simps [simp]:
  "and_then (Inl e) f = Inl e" "and_then (Inr x) f = f x"
  by (simp_all add: and_then_def)

lemma and_then_assoc:
  "and_then (and_then r f) g = and_then r (\<lambda>x. and_then (f x) g)"
  by (cases r) simp_all

lemma month_cases:
  assumes "1 \<le> m" "m \<le> 12"
  obtains "m = 1" | "m = 2" | "m = 3" | "m = 4" | "m = 5" | "m = 6"
    | "m = 7" | "m = 8" | "m = 9" | "m = 10" | "m = 11" | "m = (12::int)"
  using assms by atomize_elim arith

lemma days_in_month_bounds:
  assumes "1 \<le> m" "m \<le> 12"
  shows "28 \<le> days_in_month y m \<and> days_in_month y m \<le> 31"
  using assms by (rule month_cases) (simp_all add: days_in_month_def mdays_def)

lemma days_later_within:
  "day dt + int k \<le> days_in_month (year dt) (month dt) \<Longrightarrow>
   days_later k dt = Inr (dt\<lparr>day := day dt + int k\<rparr>)"
proof (induction k arbitrary: dt)
  case 0
  then show ?case by simp
next
  case (Suc k)
  then have "day dt < days_in_month (year dt) (month dt)" by simp
  then have n: "next_day dt = Inr (dt\<lparr>day := day dt + 1\<rparr>)" by (simp add: next_day_def)
  let ?d = "dt\<lparr>day := day dt + 1\<rparr>"
  have "day ?d + int k \<le> days_in_month (year ?d) (month ?d)" using Suc.prems by simp
  from Suc.IH [OF this] have "days_later k ?d = Inr (dt\<lparr>day := day dt + 1 + int k\<rparr>)"
    by simp
  with n show ?case by (simp add: algebra_simps)
qed

lemma days_later_add:
  "days_later (a + b) dt = and_then (days_later a dt) (days_later b)"
proof (induction a arbitrary: dt)
  case 0
  then show ?case by simp
next
  case (Suc a)
  then show ?case by (cases "next_day dt") simp_all
qed

lemma month_end_plus_two:
  assumes "1 \<le> m" "m \<le> 12"
  shows "days_later 2 \<lparr>year = y, month = m, day = days_in_month y m\<rparr>
     = (if m < 12 then Inr \<lparr>year = y, month = m + 1, day = 2\<rparr>
        else if y < MAXYEAR then Inr \<lparr>year = y + 1, month = 1, day = 2\<rparr>
        else Inl OverflowError)"
proof -
  have one: "days_later (Suc 0) = (\<lambda>d. and_then (next_day d) Inr)"
  proof
    fix d
    have "days_later 0 = Inr" by (rule ext) simp
    then show "days_later (Suc 0) d = and_then (next_day d) Inr" by simp
  qed
  have two: "days_later 2 dt = and_then (next_day dt) (\<lambda>d. and_then (next_day d) Inr)" for dt
    by (simp add: numeral_2_eq_2 one)
  have b1: "1 < days_in_month y (m + 1)" if "m < 12"
    using days_in_month_bounds [of "m + 1" y] assms that by simp
  have b2: "1 < days_in_month (y + 1) 1"
    using days_in_month_bounds [of 1 "y + 1"] by simp
  show ?thesis using b1 b2 by (simp add: two next_day_def)
qed

lemma first_plus_month:
  assumes "1 \<le> m" "m \<le> 12"
  shows "datetime_add \<lparr>year = y, month = m, day = 1\<rparr> (days_in_month y m + 1)
     = (if m < 12 then Inr \<lparr>year = y, month = m + 1, day = 2\<rparr>
        else if y < MAXYEAR then Inr \<lparr>year = y + 1, month = 1, day = 2\<rparr>
        else Inl OverflowError)"
proof -
  let ?n = "days_in_month y m"
  have n: "28 \<le> ?n" using days_in_month_bounds [OF assms] by simp
  then have split: "nat (?n + 1) = nat (?n - 1) + 2" by simp
  have "days_later (nat (?n - 1)) \<lparr>year = y, month = m, day = 1\<rparr>
      = Inr \<lparr>year = y, month = m, day = ?n\<rparr>"
    using n by (simp add: days_later_within)
  then have "days_later (nat (?n + 1)) \<lparr>year = y, month = m, day = 1\<rparr>
      = days_later 2 \<lparr>year = y, month = m, day = ?n\<rparr>"
    by (simp only: split days_later_add and_then_simps)
  then show ?thesis using n by (simp add: datetime_add_def month_end_plus_two [OF assms])
qed

lemma first_minus_day:
  assumes "1 \<le> m" "m \<le> 12"
  shows "datetime_sub \<lparr>year = y, month = m, day = 1\<rparr> 1
     = (if 1 < m then Inr \<lparr>year = y, month = m - 1, day = days_in_month y (m - 1)\<rparr>
        else if MINYEAR < y then Inr \<lparr>year = y - 1, month = 12, day = 31\<rparr>
        else Inl OverflowError)"
  by (simp add: datetime_sub_def datetime_add_def prev_day_def)

lemma datetime_new_first:
  "MINYEAR \<le> y \<Longrightarrow> y \<le> MAXYEAR \<Longrightarrow> 1 \<le> m \<Longrightarrow> m \<le> 12 \<Longrightarrow>
   datetime_new y m 1 = Inr \<lparr>year = y, month = m, day = 1\<rparr>"
  using days_in_month_bounds [of m y] by (simp add: datetime_new_def)

lemma build_calendar_returns:
  "1 \<le> month (priv_date s) \<Longrightarrow> month (priv_date s) \<le> 12 \<Longrightarrow>
   \<exists>it. build_calendar s = Inr (s\<lparr>priv_items := it\<rparr>)"
  apply (simp add: build_calendar_def monthdayscalendar_def itermonthdays_def monthrange_def Let_def)
  apply (rule exI)
  apply (rule refl)
  done


lemma next_month_eq:
  assumes "priv_date s = \<lparr>year = y, month = m, day = 1\<rparr>"
    and "MINYEAR \<le> y" "y \<le> MAXYEAR" "1 \<le> m" "m \<le> 12"
  shows "next_month s =
    (if m < 12
       then build_calendar (s\<lparr>priv_canvas := None, priv_date := \<lparr>year = y, month = m + 1, day = 1\<rparr>\<rparr>)
     else if y < MAXYEAR
       then build_calendar (s\<lparr>priv_canvas := None, priv_date := \<lparr>year = y + 1, month = 1, day = 1\<rparr>\<rparr>)
     else Inl OverflowError)"
proof -
  have mr: "monthrange y m = Inr (weekday y m 1, days_in_month y m)"
    using assms(4,5) by (simp add: monthrange_def)
  have n1: "datetime_new y (m + 1) 1 = Inr \<lparr>year = y, month = m + 1, day = 1\<rparr>" if "m < 12"
    using that assms by (intro datetime_new_first) simp_all
  have n2: "datetime_new (y + 1) 1 1 = Inr \<lparr>year = y + 1, month = 1, day = 1\<rparr>" if "y < MAXYEAR"
    using that assms by (intro datetime_new_first) simp_all
  show ?thesis
    using n1 n2
    by (simp add: next_month_def Let_def assms(1) mr first_plus_month [OF assms(4,5)])
qed

lemma prev_month_eq:
  assumes "priv_date s = \<lparr>year = y, month = m, day = 1\<rparr>"
    and "MINYEAR \<le> y" "y \<le> MAXYEAR" "1 \<le> m" "m \<le> 12"
  shows "prev_month s =
    (if 1 < m
       then build_calendar (s\<lparr>priv_canvas := None, priv_date := \<lparr>year = y, month = m - 1, day = 1\<rparr>\<rparr>)
     else if MINYEAR < y
       then build_calendar (s\<lparr>priv_canvas := None, priv_date := \<lparr>year = y - 1, month = 12, day = 1\<rparr>\<rparr>)
     else Inl OverflowError)"
proof -
  have n1: "datetime_new y (m - 1) 1 = Inr \<lparr>year = y, month = m - 1, day = 1\<rparr>" if "1 < m"
    using that assms by (intro datetime_new_first) simp_all
  have n2: "datetime_new (y - 1) 12 1 = Inr \<lparr>year = y - 1, month = 12, day = 1\<rparr>" if "MINYEAR < y"
    using that assms by (intro datetime_new_first) simp_all
  show ?thesis
    using n1 n2
    by (simp add: prev_month_def Let_def assms(1) first_minus_day [OF assms(4,5)])
qed

lemma year_month_build:
  assumes "1 \<le> month (priv_date s)" "month (priv_date s) \<le> 12"
  shows "year_month (build_calendar s) = Inr (year (priv_date s), month (priv_date s))"
proof -
  from build_calendar_returns [OF assms] obtain it where
    "build_calendar s = Inr (s\<lparr>priv_items := it\<rparr>)" by blast
  then show ?thesis by (simp add: year_month_def)
qed

lemma year_month_navigation:
  assumes "priv_date s = \<lparr>year = y, month = m, day = 1\<rparr>"
    and "1 \<le> y" "y \<le> 9999" "1 \<le> m" "m \<le> 12"
  shows "year_month (next_month s)
       = (if m < 12 then Inr (y, m + 1)
          else if y < 9999 then Inr (y + 1, 1) else Inl OverflowError)
     \<and> year_month (prev_month s)
       = (if 1 < m then Inr (y, m - 1)
          else if 1 < y then Inr (y - 1, 12) else Inl OverflowError)"
proof -
  have y: "MINYEAR \<le> y" "y \<le> MAXYEAR" using assms by (simp_all add: MINYEAR_def MAXYEAR_def)
  have e: "year_month (Inl OverflowError) = Inl OverflowError" by (simp add: year_month_def)
  show ?thesis
    using assms(4,5)
    by (simp add: next_month_eq [OF assms(1) y assms(4,5)] prev_month_eq [OF assms(1) y assms(4,5)]
        year_month_build e MINYEAR_def MAXYEAR_def)
qed


lemma Calendar_init_returns:
  assumes "1 \<le> y" "y \<le> 9999" "1 \<le> m" "m \<le> 12"
  shows "\<exists>it. Calendar_init y m
     = Inr \<lparr>priv_date = \<lparr>year = y, month = m, day = 1\<rparr>, priv_selection = None,
            priv_items = it, priv_canvas = None\<rparr>"
proof -
  let ?s = "\<lparr>priv_date = \<lparr>year = y, month = m, day = 1\<rparr>, priv_selection = None,
            priv_items = replicate 6 [], priv_canvas = None\<rparr>"
  have "datetime_new y m 1 = Inr \<lparr>year = y, month = m, day = 1\<rparr>"
    using assms by (intro datetime_new_first) (simp_all add: MINYEAR_def MAXYEAR_def)
  then have "Calendar_init y m = build_calendar ?s" by (simp add: Calendar_init_def)
  moreover from build_calendar_returns [of ?s] assms obtain it where
    "build_calendar ?s = Inr (?s\<lparr>priv_items := it\<rparr>)" by auto
  ultimately show ?thesis by simp
qed

lemma year_month_round_trip:
  assumes "priv_date s = \<lparr>year = y, month = m, day = 1\<rparr>"
    and "1 \<le> y" "y \<le> 9999" "1 \<le> m" "m \<le> 12"
  shows "year_month (and_then (next_month s) prev_month)
       = (if y = 9999 \<and> m = 12 then Inl OverflowError else Inr (y, m))"
proof -
  have y: "MINYEAR \<le> y" "y \<le> MAXYEAR" using assms by (simp_all add: MINYEAR_def MAXYEAR_def)
  note nm = next_month_eq [OF assms(1) y assms(4,5)]
  show ?thesis
  proof (cases "m < 12")
    case True
    let ?s = "s\<lparr>priv_canvas := None, priv_date := \<lparr>year = y, month = m + 1, day = 1\<rparr>\<rparr>"
    from build_calendar_returns [of ?s] True assms(4) obtain it where
      b: "build_calendar ?s = Inr (?s\<lparr>priv_items := it\<rparr>)" by auto
    have "priv_date (?s\<lparr>priv_items := it\<rparr>) = \<lparr>year = y, month = m + 1, day = 1\<rparr>" by simp
    from year_month_navigation [OF this assms(2,3)] True assms(4)
    have "year_month (prev_month (?s\<lparr>priv_items := it\<rparr>)) = Inr (y, m)" by simp
    with True b show ?thesis by (simp add: nm)
  next
    case False
    then have m: "m = 12" using assms(5) by simp
    show ?thesis
    proof (cases "y < 9999")
      case True
      let ?s = "s\<lparr>priv_canvas := None, priv_date := \<lparr>year = y + 1, month = 1, day = 1\<rparr>\<rparr>"
      from build_calendar_returns [of ?s] obtain it where
        b: "build_calendar ?s = Inr (?s\<lparr>priv_items := it\<rparr>)" by auto
      have "priv_date (?s\<lparr>priv_items := it\<rparr>) = \<lparr>year = y + 1, month = 1, day = 1\<rparr>" by simp
      from year_month_navigation [OF this] True assms(2)
      have "year_month (prev_month (?s\<lparr>priv_items := it\<rparr>)) = Inr (y, 12)" by simp
      with True m b show ?thesis by (simp add: nm MAXYEAR_def)
    next
      case False
      then have "y = 9999" using assms(3) by simp
      with m show ?thesis by (simp add: nm MAXYEAR_def year_month_def)
    qed
  qed
qed

text \<open>
  C4, as amended. From the first day of month \<open>m\<close> of year \<open>y\<close> (a date of
  \<^verbatim>\<open>datetime\<close>: years 1 to 9999), \<^verbatim>\<open>_next_month\<close> shows \<open>(y, m + 1)\<close> when \<open>m < 12\<close> and
  \<open>(y + 1, 1)\<close> from December of a year below 9999; \<^verbatim>\<open>_prev_month\<close> shows \<open>(y, m - 1)\<close>
  when \<open>1 < m\<close> and \<open>(y - 1, 12)\<close> from January of a year above 1. From December 9999
  \<^verbatim>\<open>_next_month\<close> raises OverflowError, and so does \<^verbatim>\<open>_prev_month\<close> from January of
  year 1.
\<close>

theorem month_navigation:
  assumes "priv_date s = \<lparr>year = y, month = m, day = 1\<rparr>"
    and "1 \<le> y" "y \<le> 9999" "1 \<le> m" "m \<le> 12"
  shows "year_month (next_month s)
       = (if m < 12 then Inr (y, m + 1)
          else if y < 9999 then Inr (y + 1, 1) else Inl OverflowError)
     \<and> year_month (prev_month s)
       = (if 1 < m then Inr (y, m - 1)
          else if 1 < y then Inr (y - 1, 12) else Inl OverflowError)"
  using assms by (rule year_month_navigation)

theorem month_navigation_witness:
  "year_month (and_then (Calendar_init 2023 12) next_month) = Inr (2024, 1)
   \<and> year_month (and_then (Calendar_init 2024 1) prev_month) = Inr (2023, 12)
   \<and> year_month (and_then (Calendar_init 2024 2) next_month) = Inr (2024, 3)
   \<and> year_month (and_then (Calendar_init 2024 2) prev_month) = Inr (2024, 1)"
proof -
  obtain a where a: "Calendar_init 2023 12 = Inr \<lparr>priv_date = \<lparr>year = 2023, month = 12, day = 1\<rparr>,
      priv_selection = None, priv_items = a, priv_canvas = None\<rparr>"
    using Calendar_init_returns [of 2023 12] by auto
  obtain b where b: "Calendar_init 2024 1 = Inr \<lparr>priv_date = \<lparr>year = 2024, month = 1, day = 1\<rparr>,
      priv_selection = None, priv_items = b, priv_canvas = None\<rparr>"
    using Calendar_init_returns [of 2024 1] by auto
  obtain c where c: "Calendar_init 2024 2 = Inr \<lparr>priv_date = \<lparr>year = 2024, month = 2, day = 1\<rparr>,
      priv_selection = None, priv_items = c, priv_canvas = None\<rparr>"
    using Calendar_init_returns [of 2024 2] by auto
  show ?thesis
    using month_navigation [of "\<lparr>priv_date = \<lparr>year = 2023, month = 12, day = 1\<rparr>,
        priv_selection = None, priv_items = a, priv_canvas = None\<rparr>" 2023 12]
      month_navigation [of "\<lparr>priv_date = \<lparr>year = 2024, month = 1, day = 1\<rparr>,
        priv_selection = None, priv_items = b, priv_canvas = None\<rparr>" 2024 1]
      month_navigation [of "\<lparr>priv_date = \<lparr>year = 2024, month = 2, day = 1\<rparr>,
        priv_selection = None, priv_items = c, priv_canvas = None\<rparr>" 2024 2]
    by (simp add: a b c)
qed

text \<open>
  C4 as stated fails at the ends of the range of \<^verbatim>\<open>datetime\<close>: December 9999 has no
  next month and January of year 1 no previous one.
\<close>

theorem rollover_leaves_datetime_range:
  "year_month (Calendar_init 9999 12) = Inr (9999, 12)
   \<and> year_month (and_then (Calendar_init 9999 12) next_month) = Inl OverflowError
   \<and> year_month (Calendar_init 1 1) = Inr (1, 1)
   \<and> year_month (and_then (Calendar_init 1 1) prev_month) = Inl OverflowError"
proof -
  obtain a where a: "Calendar_init 9999 12 = Inr \<lparr>priv_date = \<lparr>year = 9999, month = 12, day = 1\<rparr>,
      priv_selection = None, priv_items = a, priv_canvas = None\<rparr>"
    using Calendar_init_returns [of 9999 12] by auto
  obtain b where b: "Calendar_init 1 1 = Inr \<lparr>priv_date = \<lparr>year = 1, month = 1, day = 1\<rparr>,
      priv_selection = None, priv_items = b, priv_canvas = None\<rparr>"
    using Calendar_init_returns [of 1 1] by auto
  show ?thesis
    using year_month_navigation [of "\<lparr>priv_date = \<lparr>year = 9999, month = 12, day = 1\<rparr>,
        priv_selection = None, priv_items = a, priv_canvas = None\<rparr>" 9999 12]
      year_month_navigation [of "\<lparr>priv_date = \<lparr>year = 1, month = 1, day = 1\<rparr>,
        priv_selection = None, priv_items = b, priv_canvas = None\<rparr>" 1 1]
    by (simp add: a b year_month_def)
qed

text \<open>
  C3, as amended. From every displayed month but December 9999, \<^verbatim>\<open>_next_month\<close> and then
  \<^verbatim>\<open>_prev_month\<close> both return and show the month they started from.
\<close>

theorem next_then_prev_round_trip:
  assumes "priv_date s = \<lparr>year = y, month = m, day = 1\<rparr>"
    and "1 \<le> y" "y \<le> 9999" "1 \<le> m" "m \<le> 12" and "y < 9999 \<or> m < 12"
  shows "year_month (and_then (next_month s) prev_month) = Inr (y, m)"
  using year_month_round_trip [OF assms(1-5)] assms(6) by auto

theorem next_then_prev_round_trip_witness:
  "year_month (and_then (and_then (Calendar_init 2023 12) next_month) prev_month)
     = Inr (2023, 12)
   \<and> year_month (and_then (and_then (Calendar_init 9999 11) next_month) prev_month)
     = Inr (9999, 11)"
proof -
  obtain a where a: "Calendar_init 2023 12 = Inr \<lparr>priv_date = \<lparr>year = 2023, month = 12, day = 1\<rparr>,
      priv_selection = None, priv_items = a, priv_canvas = None\<rparr>"
    using Calendar_init_returns [of 2023 12] by auto
  obtain b where b: "Calendar_init 9999 11 = Inr \<lparr>priv_date = \<lparr>year = 9999, month = 11, day = 1\<rparr>,
      priv_selection = None, priv_items = b, priv_canvas = None\<rparr>"
    using Calendar_init_returns [of 9999 11] by auto
  show ?thesis
    using next_then_prev_round_trip [of "\<lparr>priv_date = \<lparr>year = 2023, month = 12, day = 1\<rparr>,
        priv_selection = None, priv_items = a, priv_canvas = None\<rparr>" 2023 12]
      next_then_prev_round_trip [of "\<lparr>priv_date = \<lparr>year = 9999, month = 11, day = 1\<rparr>,
        priv_selection = None, priv_items = b, priv_canvas = None\<rparr>" 9999 11]
    by (simp add: a b)
qed

text \<open>
  C3 as stated fails from December 9999: \<^verbatim>\<open>_next_month\<close> raises OverflowError there. (Were
  the error dropped and the calendar left as it is, \<^verbatim>\<open>_prev_month\<close> would show November.)
\<close>

theorem round_trip_fails_at_last_month:
  "year_month (Calendar_init 9999 12) = Inr (9999, 12)
   \<and> year_month (and_then (and_then (Calendar_init 9999 12) next_month) prev_month)
       = Inl OverflowError
   \<and> year_month (and_then (Calendar_init 9999 12) prev_month) = Inr (9999, 11)"
proof -
  obtain a where a: "Calendar_init 9999 12 = Inr \<lparr>priv_date = \<lparr>year = 9999, month = 12, day = 1\<rparr>,
      priv_selection = None, priv_items = a, priv_canvas = None\<rparr>"
    using Calendar_init_returns [of 9999 12] by auto
  show ?thesis
    using year_month_round_trip [of "\<lparr>priv_date = \<lparr>year = 9999, month = 12, day = 1\<rparr>,
        priv_selection = None, priv_items = a, priv_canvas = None\<rparr>" 9999 12]
      year_month_navigation [of "\<lparr>priv_date = \<lparr>year = 9999, month = 12, day = 1\<rparr>,
        priv_selection = None, priv_items = a, priv_canvas = None\<rparr>" 9999 12]
    by (simp add: a year_month_def)
qed

subsection \<open>The month grid\<close>

lemma py_slice_forward:
  assumes "0 \<le> a"
  shows "py_slice xs a (a + int k) = take k (drop (nat a) xs)"
proof (cases "a \<le> int (length xs)")
  case True
  then show ?thesis using assms
    by (auto simp: py_slice_def slice_bound_def Let_def min_def)
next
  case False
  then show ?thesis using assms
    by (auto simp: py_slice_def slice_bound_def Let_def min_def)
qed

lemma weeks_of_whole:
  assumes "length xs = 7 * w"
  shows "weeks_of xs = map (\<lambda>k. take 7 (drop (7 * k) xs)) [0..<w]"
proof -
  have "(length xs + 6) div 7 = w" using assms by simp
  moreover have "py_slice xs (7 * int k) (7 * int k + 7) = take 7 (drop (7 * k) xs)" for k
    using py_slice_forward [of "7 * int k" xs 7] by (simp add: nat_mult_distrib)
  ultimately show ?thesis by (simp add: weeks_of_def)
qed

lemma concat_chunks:
  "concat (map (\<lambda>k. take 7 (drop (7 * k) xs)) [0..<w]) = take (7 * w) xs"
proof (induction w)
  case 0
  then show ?case by simp
next
  case (Suc w)
  have "take (7 * w + 7) xs = take (7 * w) xs @ take 7 (drop (7 * w) xs)"
    by (simp add: take_add)
  with Suc show ?case by (simp add: add.commute)
qed

lemma weeks_of_props:
  assumes "length xs = 7 * w"
  shows "length (weeks_of xs) = w" "concat (weeks_of xs) = xs"
    "\<forall>wk \<in> set (weeks_of xs). length wk = 7"
proof -
  show "length (weeks_of xs) = w" by (simp add: weeks_of_whole [OF assms])
  show "concat (weeks_of xs) = xs" using assms by (simp add: weeks_of_whole [OF assms] concat_chunks)
  show "\<forall>wk \<in> set (weeks_of xs). length wk = 7"
    using assms by (auto simp: weeks_of_whole [OF assms])
qed

lemma padding_whole_weeks:
  fixes day1 n :: int
  assumes "28 \<le> n" "n \<le> 31"
  shows "\<exists>w. nat ((day1 - 6) mod 7) + nat n + nat ((6 - day1 - n) mod 7) = 7 * w
           \<and> 4 \<le> w \<and> w \<le> 6"
proof -
  let ?b = "(day1 - 6) mod 7" and ?a = "(6 - day1 - n) mod 7"
  have b: "0 \<le> ?b" "?b \<le> 6" by simp_all
  have a: "0 \<le> ?a" "?a \<le> 6" by simp_all
  have "(?b + n + ?a) mod 7 = 0" by presburger
  then have "7 dvd ?b + n + ?a" by (simp only: mod_eq_0_iff_dvd)
  then obtain q where q: "?b + n + ?a = 7 * q" by (elim dvdE)
  with a b assms have "4 \<le> q" "q \<le> 6" by linarith+
  have "int (nat ?b + nat n + nat ?a) = ?b + n + ?a" using a b assms by simp
  with q have "int (nat ?b + nat n + nat ?a) = int (7 * nat q)" using \<open>4 \<le> q\<close> by simp
  then have "nat ?b + nat n + nat ?a = 7 * nat q" by (simp only: int_int_eq)
  moreover have "4 \<le> nat q" "nat q \<le> 6" using \<open>4 \<le> q\<close> \<open>q \<le> 6\<close> by simp_all
  ultimately show ?thesis by blast
qed


lemma decimal_nonempty: "decimal n \<noteq> []"
  by (subst decimal.simps) simp

lemma fmt02d_nonempty: "fmt02d d \<noteq> []"
  by (simp add: fmt02d_def decimal_nonempty)

lemma fmt_week_days:
  "filter (\<lambda>c. c \<noteq> []) (fmt_week (replicate b 0 @ [1..n] @ replicate a 0)) = map fmt02d [1..n]"
proof -
  have z: "filter (\<lambda>c. c \<noteq> []) (fmt_week (replicate k 0)) = []" for k
    by (simp add: fmt_week_def)
  have d: "filter (\<lambda>c. c \<noteq> []) (fmt_week [1..n]) = map fmt02d [1..n]"
  proof -
    have "fmt_week [1..n] = map fmt02d [1..n]" by (simp add: fmt_week_def)
    moreover have "filter (\<lambda>c. c \<noteq> []) (map fmt02d ds) = map fmt02d ds" for ds
      by (induction ds) (simp_all add: fmt02d_nonempty)
    ultimately show ?thesis by simp
  qed
  have "fmt_week (xs @ ys) = fmt_week xs @ fmt_week ys" for xs ys by (simp add: fmt_week_def)
  then show ?thesis by (simp add: z d)
qed

lemma rows_of_weeks:
  assumes "length cal \<le> k"
  shows "map (\<lambda>indx. f (if indx < length cal then cal ! indx else [])) [0..<k]
       = map f cal @ replicate (k - length cal) (f [])"
proof -
  have "[0..<k] = [0..<length cal] @ [length cal..<k]"
    using assms by (metis le_add_diff_inverse upt_add_eq_append zero_le)
  moreover have "map (\<lambda>indx. f (if indx < length cal then cal ! indx else [])) [0..<length cal]
      = map f cal"
  proof -
    have "map (\<lambda>indx. f (if indx < length cal then cal ! indx else [])) [0..<length cal]
        = map (\<lambda>indx. f (cal ! indx)) [0..<length cal]" by simp
    also have "\<dots> = map f (map ((!) cal) [0..<length cal])" by (simp add: comp_def)
    also have "\<dots> = map f cal" by (simp only: map_nth)
    finally show ?thesis .
  qed
  moreover have "map (\<lambda>indx. f (if indx < length cal then cal ! indx else [])) [length cal..<k]
      = replicate (k - length cal) (f [])"
  proof -
    have "map (\<lambda>indx. f (if indx < length cal then cal ! indx else [])) [length cal..<k]
        = map (\<lambda>indx. f []) [length cal..<k]" by (rule map_cong) auto
    then show ?thesis by (simp add: map_replicate_const)
  qed
  ultimately show ?thesis by simp
qed

lemma month_weeks:
  assumes "1 \<le> m" "m \<le> 12"
  shows "\<exists>cal b a. monthdayscalendar SUNDAY y m = Inr cal
       \<and> 4 \<le> length cal \<and> length cal \<le> 6 \<and> (\<forall>wk \<in> set cal. length wk = 7)
       \<and> concat cal = replicate b 0 @ [1..days_in_month y m] @ replicate a 0
       \<and> (b = 0) = (weekday y m 1 = SUNDAY)
       \<and> b = nat ((weekday y m 1 - SUNDAY) mod 7)"
proof -
  let ?n = "days_in_month y m" and ?d = "weekday y m 1"
  let ?b = "nat ((?d - 6) mod 7)" and ?a = "nat ((6 - ?d - ?n) mod 7)"
  let ?days = "replicate ?b 0 @ [1..?n] @ replicate ?a (0::int)"
  have n: "28 \<le> ?n" "?n \<le> 31" using days_in_month_bounds [OF assms, of y] by simp_all
  from padding_whole_weeks [OF n, of ?d] obtain w where
    w: "?b + nat ?n + ?a = 7 * w" "4 \<le> w" "w \<le> 6" by blast
  have len: "length ?days = 7 * w" using w(1) n by simp
  have it: "itermonthdays SUNDAY y m = Inr ?days"
    using assms by (simp add: itermonthdays_def monthrange_def SUNDAY_def Let_def)
  then have cal: "monthdayscalendar SUNDAY y m = Inr (weeks_of ?days)"
    by (simp add: monthdayscalendar_def)
  have d: "0 \<le> ?d" "?d < 7" by (simp_all add: weekday_def date_weekday_def Let_def)
  have six: "((x - 6) mod 7 = 0) = (x = 6)" if "0 \<le> x" "x < 7" for x :: int
    using that by presburger
  have nn: "0 \<le> (?d - 6) mod 7" by simp
  have "(?b = 0) = ((?d - 6) mod 7 \<le> 0)" by (simp only: nat_0_iff)
  also have "\<dots> = ((?d - 6) mod 7 = 0)" using nn by linarith
  also have "\<dots> = (?d = 6)" by (rule six [OF d])
  finally have b0: "(?b = 0) = (?d = SUNDAY)" by (simp only: SUNDAY_def)
  have l: "4 \<le> length (weeks_of ?days)" "length (weeks_of ?days) \<le> 6"
    using weeks_of_props(1) [OF len] w(2,3) by simp_all
  show ?thesis
    apply (rule exI [of _ "weeks_of ?days"])
    apply (rule exI [of _ ?b])
    apply (rule exI [of _ ?a])
    apply (intro conjI)
         apply (rule cal)
        apply (rule l(1))
       apply (rule l(2))
      apply (rule weeks_of_props(3) [OF len])
     apply (rule weeks_of_props(2) [OF len])
     apply (rule b0)
    apply (simp only: SUNDAY_def)
    done
qed


lemma digit_char_code: "k < 10 \<Longrightarrow> (of_char (digit_char k) :: nat) = 48 + k"
  by (simp add: digit_char_def)

lemma digit_char_props:
  assumes "k < 10"
  shows "is_digit (digit_char k)" "digit_val (digit_char k) = k"
    "digit_char k \<noteq> CHR ''-''" "digit_char k \<noteq> CHR ''+''"
proof -
  note c = digit_char_code [OF assms]
  show "is_digit (digit_char k)" using assms by (simp add: is_digit_def c)
  show "digit_val (digit_char k) = k" by (simp add: digit_val_def c)
  have "(of_char (digit_char k) :: nat) \<noteq> of_char CHR ''-''" by (simp add: c)
  then show "digit_char k \<noteq> CHR ''-''" by auto
  have "(of_char (digit_char k) :: nat) \<noteq> of_char CHR ''+''" by (simp add: c)
  then show "digit_char k \<noteq> CHR ''+''" by auto
qed

lemma two_digits_read_back:
  assumes "a < 10" "b < 10"
  shows "int_of_string [digit_char a, digit_char b] = Some (int (10 * a + b))"
  using digit_char_props [OF assms(1)] digit_char_props [OF assms(2)]
  by (simp add: nat_of_digits_def)

lemma one_digit_read_back:
  assumes "a < 10"
  shows "int_of_string [digit_char a] = Some (int a)"
  using digit_char_props [OF assms] by (simp add: nat_of_digits_def)

lemma decimal_small: "n < 10 \<Longrightarrow> decimal n = [digit_char n]"
  by (subst decimal.simps) simp

lemma fmt02d_two_digits:
  assumes "0 \<le> d" "d < 100"
  shows "fmt02d d = [digit_char (nat d div 10), digit_char (nat d mod 10)]"
proof (cases "d < 10")
  case True
  have "(of_char CHR ''0'' :: nat) = 48" by simp
  then have "char_of (48 :: nat) = CHR ''0''" by (metis char_of_char)
  then have "CHR ''0'' = digit_char 0" by (simp add: digit_char_def)
  moreover have "decimal (nat d) = [digit_char (nat d)]"
    using True assms by (intro decimal_small) simp
  ultimately show ?thesis using True assms by (simp add: fmt02d_def)
next
  case False
  then have big: "\<not> nat d < 10" by simp
  have small: "nat d div 10 < 10" using assms by simp
  have "decimal (nat d) = decimal (nat d div 10) @ [digit_char (nat d mod 10)]"
    using big by (subst decimal.simps) simp
  moreover have "decimal (nat d div 10) = [digit_char (nat d div 10)]"
    using small by (rule decimal_small)
  ultimately show ?thesis using False assms by (simp add: fmt02d_def)
qed

lemma day_text_read_back:
  assumes "0 \<le> d" "d < 100"
  shows "convert_stringval (fmt02d d) = TkInt d"
proof -
  have "nat d div 10 < 10" "nat d mod 10 < 10" using assms by simp_all
  from two_digits_read_back [OF this]
  have "int_of_string (fmt02d d) = Some (int (10 * (nat d div 10) + nat d mod 10))"
    by (simp only: fmt02d_two_digits [OF assms])
  moreover have "int (10 * (nat d div 10) + nat d mod 10) = d" using assms by simp
  ultimately show ?thesis by (simp add: convert_stringval_def)
qed

lemma concat_fmt_week: "concat (map fmt_week cal) = fmt_week (concat cal)"
  by (induction cal) (simp_all add: fmt_week_def)

lemma build_calendar_items:
  assumes "year (priv_date s) = y" "month (priv_date s) = m" "1 \<le> m" "m \<le> 12"
  shows "\<exists>cal b a. build_calendar s
         = Inr (s\<lparr>priv_items := map fmt_week cal @ replicate (6 - length cal) []\<rparr>)
       \<and> 4 \<le> length cal \<and> length cal \<le> 6 \<and> (\<forall>wk \<in> set cal. length wk = 7)
       \<and> concat cal = replicate b 0 @ [1..days_in_month y m] @ replicate a 0
       \<and> (b = 0) = (weekday y m 1 = SUNDAY)
       \<and> b = nat ((weekday y m 1 - SUNDAY) mod 7)"
proof -
  from month_weeks [OF assms(3,4), of y] obtain cal b a where
    c: "monthdayscalendar SUNDAY y m = Inr cal" "4 \<le> length cal" "length cal \<le> 6"
      "\<forall>wk \<in> set cal. length wk = 7"
      "concat cal = replicate b 0 @ [1..days_in_month y m] @ replicate a 0"
      "(b = 0) = (weekday y m 1 = SUNDAY)" "b = nat ((weekday y m 1 - SUNDAY) mod 7)"
    by (elim exE conjE) (rule that)
  have "fmt_week [] = []" by (simp add: fmt_week_def)
  with rows_of_weeks [OF c(3), of fmt_week]
  have "map (\<lambda>indx. fmt_week (if indx < length cal then cal ! indx else [])) [0..<6]
      = map fmt_week cal @ replicate (6 - length cal) []" by simp
  then have "build_calendar s
      = Inr (s\<lparr>priv_items := map fmt_week cal @ replicate (6 - length cal) []\<rparr>)"
    by (simp add: build_calendar_def assms(1,2) c(1))
  show ?thesis
    apply (rule exI [of _ cal])
    apply (rule exI [of _ b])
    apply (rule exI [of _ a])
    apply (intro conjI)
          apply fact
         apply (rule c(2))
        apply (rule c(3))
       apply (rule c(4))
      apply (rule c(5))
     apply (rule c(6))
    apply (rule c(7))
    done
qed

lemma Calendar_init_builds:
  assumes "1 \<le> y" "y \<le> 9999" "1 \<le> m" "m \<le> 12"
  shows "Calendar_init y m = build_calendar (unbuilt y m)"
proof -
  have "datetime_new y m 1 = Inr \<lparr>year = y, month = m, day = 1\<rparr>"
    using assms by (intro datetime_new_first) (simp_all add: MINYEAR_def MAXYEAR_def)
  then show ?thesis by (simp add: Calendar_init_def unbuilt_def)
qed

lemma shown_row_full: "length vals = 7 \<Longrightarrow> shown_row vals = vals"
  by (simp add: shown_row_def tree_columns_def list_eq_iff_nth_eq)

lemma shown_row_none: "shown_row [] = replicate 7 []"
  by (simp add: shown_row_def tree_columns_def map_replicate_const)

lemma concat_blank_rows: "concat (replicate k (replicate 7 x)) = replicate (7 * k) x"
  by (induction k) (simp_all add: replicate_add [symmetric])

lemma length_concat_weeks:
  "\<forall>wk \<in> set cal. length wk = 7 \<Longrightarrow> length (concat cal) = 7 * length cal"
  by (induction cal) simp_all

lemma fmt_week_append: "fmt_week (xs @ ys) = fmt_week xs @ fmt_week ys"
  by (simp add: fmt_week_def)

lemma fmt_week_blank: "fmt_week (replicate k 0) = replicate k []"
  by (simp add: fmt_week_def)

lemma fmt_week_month: "fmt_week [1..n] = map fmt02d [1..n]"
  by (simp add: fmt_week_def)

lemma days_in_month_gregorian:
  assumes "1 \<le> m" "m \<le> 12"
  shows "days_in_month y m =
     (if m = 2 then (if y mod 4 = 0 \<and> (y mod 100 \<noteq> 0 \<or> y mod 400 = 0) then 29 else 28)
      else if m = 4 \<or> m = 6 \<or> m = 9 \<or> m = 11 then 30 else 31)"
  using assms by (rule month_cases) (simp_all add: days_in_month_def mdays_def isleap_def)

lemma shown_grid_build:
  assumes "year (priv_date s) = y" "month (priv_date s) = m" "1 \<le> m" "m \<le> 12"
  shows "\<exists>s'. build_calendar s = Inr s'
       \<and> map length (shown_grid s') = replicate 6 7
       \<and> concat (shown_grid s')
           = fmt_week (replicate (nat ((weekday y m 1 - SUNDAY) mod 7)) 0
               @ [1..days_in_month y m]
               @ replicate (42 - nat ((weekday y m 1 - SUNDAY) mod 7)
                              - nat (days_in_month y m)) 0)"
proof -
  let ?n = "days_in_month y m"
  from build_calendar_items [OF assms] obtain cal b a where
    c: "build_calendar s = Inr (s\<lparr>priv_items := map fmt_week cal @ replicate (6 - length cal) []\<rparr>)"
      "4 \<le> length cal" "length cal \<le> 6" "\<forall>wk \<in> set cal. length wk = 7"
      "concat cal = replicate b 0 @ [1..?n] @ replicate a 0"
      "b = nat ((weekday y m 1 - SUNDAY) mod 7)" by (elim exE conjE) (rule that)
  let ?s' = "s\<lparr>priv_items := map fmt_week cal @ replicate (6 - length cal) []\<rparr>"
  let ?w = "length cal"
  have n: "28 \<le> ?n" using days_in_month_bounds [OF assms(3,4), of y] by simp
  have "map (\<lambda>wk. shown_row (fmt_week wk)) cal = map fmt_week cal"
    using c(4) by (intro map_cong) (simp_all add: shown_row_full fmt_week_def)
  then have g: "shown_grid ?s' = map fmt_week cal @ replicate (6 - ?w) (replicate 7 [])"
    by (simp add: shown_grid_def comp_def shown_row_none)
  have "map (\<lambda>wk. length (fmt_week wk)) cal = map (\<lambda>wk. 7) cal"
    using c(4) by (intro map_cong) (simp_all add: fmt_week_def)
  then have "map length (shown_grid ?s') = replicate ?w 7 @ replicate (6 - ?w) 7"
    by (simp add: g comp_def map_replicate_const)
  also have "\<dots> = replicate 6 7" using c(3) by (simp add: replicate_add [symmetric])
  finally have widths: "map length (shown_grid ?s') = replicate 6 7" .
  have "length (concat cal) = 7 * ?w" using c(4) by (rule length_concat_weeks)
  then have "b + nat ?n + a = 7 * ?w" using n by (simp add: c(5))
  then have rest: "a + 7 * (6 - ?w) = 42 - b - nat ?n" using c(3) by simp
  have "concat (shown_grid ?s') = fmt_week (concat cal) @ replicate (7 * (6 - ?w)) []"
    by (simp add: g concat_fmt_week concat_blank_rows)
  also have "\<dots> = fmt_week (replicate b 0 @ [1..?n] @ replicate (a + 7 * (6 - ?w)) 0)"
    by (simp add: c(5) fmt_week_append fmt_week_blank replicate_add)
  finally have "concat (shown_grid ?s')
      = fmt_week (replicate b 0 @ [1..?n] @ replicate (42 - b - nat ?n) 0)"
    by (simp only: rest)
  then have cells: "concat (shown_grid ?s')
      = fmt_week (replicate (nat ((weekday y m 1 - SUNDAY) mod 7)) 0 @ [1..?n]
          @ replicate (42 - nat ((weekday y m 1 - SUNDAY) mod 7) - nat ?n) 0)"
    by (simp only: c(6))
  show ?thesis
    apply (rule exI [of _ ?s'])
    apply (intro conjI)
      apply (rule c(1))
     apply (rule widths)
    apply (rule cells)
    done
qed

text \<open>
  C7. For every year in 1..9999 and month in 1..12, \<^verbatim>\<open>_build_calendar\<close> returns and the
  tree view shows six rows of seven cells. Read row by row, the cells are: one empty
  cell for each weekday from Sunday up to the weekday of day 1, then the days
  1, 2, ... up to the last day of the month, then empty cells up to the 42nd. So the
  cells that are not empty are as many as the month has days in the Gregorian calendar
  (with 29 days in February exactly in the leap years), and the tree view reads them
  back as the numbers 1, 2, ..., in this order.
\<close>

theorem month_grid:
  assumes "year (priv_date s) = y" "month (priv_date s) = m"
    and "1 \<le> y" "y \<le> 9999" "1 \<le> m" "m \<le> 12"
  shows "\<exists>s'. build_calendar s = Inr s'
       \<and> map length (shown_grid s') = replicate 6 7
       \<and> concat (shown_grid s')
           = replicate (nat ((weekday y m 1 - SUNDAY) mod 7)) []
               @ map fmt02d [1..days_in_month y m]
               @ replicate (42 - nat ((weekday y m 1 - SUNDAY) mod 7)
                              - nat (days_in_month y m)) []
       \<and> length (filter (\<lambda>c. c \<noteq> []) (concat (shown_grid s'))) = nat (days_in_month y m)
       \<and> map convert_stringval (filter (\<lambda>c. c \<noteq> []) (concat (shown_grid s')))
           = map TkInt [1..days_in_month y m]
       \<and> days_in_month y m =
           (if m = 2
            then (if y mod 4 = 0 \<and> (y mod 100 \<noteq> 0 \<or> y mod 400 = 0) then 29 else 28)
            else if m = 4 \<or> m = 6 \<or> m = 9 \<or> m = 11 then 30 else 31)"
proof -
  let ?n = "days_in_month y m" and ?b = "nat ((weekday y m 1 - SUNDAY) mod 7)"
  from shown_grid_build [OF assms(1,2,5,6)] obtain s' where
    s': "build_calendar s = Inr s'" "map length (shown_grid s') = replicate 6 7"
      "concat (shown_grid s')
         = fmt_week (replicate ?b 0 @ [1..?n] @ replicate (42 - ?b - nat ?n) 0)" by blast
  have n: "28 \<le> ?n" "?n \<le> 31" using days_in_month_bounds [OF assms(5,6), of y] by simp_all
  have cells: "concat (shown_grid s')
      = replicate ?b [] @ map fmt02d [1..?n] @ replicate (42 - ?b - nat ?n) []"
    by (simp only: s'(3) fmt_week_append fmt_week_blank fmt_week_month)
  have days: "filter (\<lambda>c. c \<noteq> []) (concat (shown_grid s')) = map fmt02d [1..?n]"
    by (simp only: s'(3) fmt_week_days)
  have "length (map fmt02d [1..?n]) = nat ?n" by simp
  then have cnt: "length (filter (\<lambda>c. c \<noteq> []) (concat (shown_grid s'))) = nat ?n"
    by (simp only: days)
  have "map (\<lambda>d. convert_stringval (fmt02d d)) [1..?n] = map TkInt [1..?n]"
    using n by (intro map_cong) (simp_all add: day_text_read_back)
  then have "map convert_stringval (map fmt02d [1..?n]) = map TkInt [1..?n]"
    by (simp only: map_map comp_def)
  then have vals: "map convert_stringval (filter (\<lambda>c. c \<noteq> []) (concat (shown_grid s')))
      = map TkInt [1..?n]"
    by (simp only: days)
  show ?thesis
    apply (rule exI [of _ s'])
    apply (intro conjI)
         apply (rule s'(1))
        apply (rule s'(2))
       apply (rule cells)
      apply (rule cnt)
     apply (rule vals)
    apply (rule days_in_month_gregorian [OF assms(5,6)])
    done
qed

theorem month_grid_witness:
  "(\<exists>s'. Calendar_init 2024 2 = Inr s'
       \<and> map length (shown_grid s') = replicate 6 7
       \<and> length (filter (\<lambda>c. c \<noteq> []) (concat (shown_grid s'))) = 29
       \<and> map convert_stringval (filter (\<lambda>c. c \<noteq> []) (concat (shown_grid s')))
           = map TkInt [1..29])
   \<and> (\<exists>s'. Calendar_init 2023 2 = Inr s'
       \<and> map length (shown_grid s') = replicate 6 7
       \<and> length (filter (\<lambda>c. c \<noteq> []) (concat (shown_grid s'))) = 28
       \<and> map convert_stringval (filter (\<lambda>c. c \<noteq> []) (concat (shown_grid s')))
           = map TkInt [1..28])"
proof -
  have r: "(1::int) \<le> 2024" "(2024::int) \<le> 9999" "(1::int) \<le> 2023" "(2023::int) \<le> 9999"
    "(1::int) \<le> 2" "(2::int) \<le> 12" by simp_all
  have i: "Calendar_init 2024 2 = build_calendar (unbuilt 2024 2)"
    "Calendar_init 2023 2 = build_calendar (unbuilt 2023 2)"
    by (simp_all add: Calendar_init_builds)
  have u: "year (priv_date (unbuilt y m)) = y" "month (priv_date (unbuilt y m)) = m" for y m
    by (simp_all add: unbuilt_def)
  from month_grid [OF u r(1,2,5,6)] obtain s1 where
    a: "build_calendar (unbuilt 2024 2) = Inr s1" "map length (shown_grid s1) = replicate 6 7"
      "length (filter (\<lambda>c. c \<noteq> []) (concat (shown_grid s1))) = nat (days_in_month 2024 2)"
      "map convert_stringval (filter (\<lambda>c. c \<noteq> []) (concat (shown_grid s1)))
         = map TkInt [1..days_in_month 2024 2]"
      "days_in_month 2024 2 =
           (if (2::int) = 2
            then (if (2024::int) mod 4 = 0 \<and> ((2024::int) mod 100 \<noteq> 0 \<or> (2024::int) mod 400 = 0)
                  then 29 else 28)
            else if (2::int) = 4 \<or> (2::int) = 6 \<or> (2::int) = 9 \<or> (2::int) = 11 then 30 else 31)"
    by (elim exE conjE) (rule that)
  from month_grid [OF u r(3,4,5,6)] obtain s2 where
    b: "build_calendar (unbuilt 2023 2) = Inr s2" "map length (shown_grid s2) = replicate 6 7"
      "length (filter (\<lambda>c. c \<noteq> []) (concat (shown_grid s2))) = nat (days_in_month 2023 2)"
      "map convert_stringval (filter (\<lambda>c. c \<noteq> []) (concat (shown_grid s2)))
         = map TkInt [1..days_in_month 2023 2]"
      "days_in_month 2023 2 =
           (if (2::int) = 2
            then (if (2023::int) mod 4 = 0 \<and> ((2023::int) mod 100 \<noteq> 0 \<or> (2023::int) mod 400 = 0)
                  then 29 else 28)
            else if (2::int) = 4 \<or> (2::int) = 6 \<or> (2::int) = 9 \<or> (2::int) = 11 then 30 else 31)"
    by (elim exE conjE) (rule that)
  have d1: "days_in_month 2024 2 = 29" by (simp add: a(5))
  have d2: "days_in_month 2023 2 = 28" by (simp add: b(5))
  have "\<exists>s'. Calendar_init 2024 2 = Inr s'
       \<and> map length (shown_grid s') = replicate 6 7
       \<and> length (filter (\<lambda>c. c \<noteq> []) (concat (shown_grid s'))) = 29
       \<and> map convert_stringval (filter (\<lambda>c. c \<noteq> []) (concat (shown_grid s')))
           = map TkInt [1..29]"
    using a(1-4) unfolding d1 i by (intro exI [of _ s1]) simp
  moreover have "\<exists>s'. Calendar_init 2023 2 = Inr s'
       \<and> map length (shown_grid s') = replicate 6 7
       \<and> length (filter (\<lambda>c. c \<noteq> []) (concat (shown_grid s'))) = 28
       \<and> map convert_stringval (filter (\<lambda>c. c \<noteq> []) (concat (shown_grid s')))
           = map TkInt [1..28]"
    using b(1-4) unfolding d2 i by (intro exI [of _ s2]) simp
  ultimately show ?thesis by (rule conjI)
qed

text \<open>February 2023 as the tree view shows it: five weeks and a sixth row of empty cells.\<close>

lemma february_2023_shown:
  "and_then (Calendar_init 2023 2) (\<lambda>s. Inr (shown_grid s))
     = Inr [['''', '''', '''', ''01'', ''02'', ''03'', ''04''],
            [''05'', ''06'', ''07'', ''08'', ''09'', ''10'', ''11''],
            [''12'', ''13'', ''14'', ''15'', ''16'', ''17'', ''18''],
            [''19'', ''20'', ''21'', ''22'', ''23'', ''24'', ''25''],
            [''26'', ''27'', ''28'', '''', '''', '''', ''''],
            ['''', '''', '''', '''', '''', '''', '''']]"
  by code_simp

subsection \<open>Clicks and the selection\<close>

lemma pressed_outside:
  "column evt = [] \<Longrightarrow> pressed s evt = Inr s"
  "row_item evt = None \<Longrightarrow> pressed s evt = Inr s"
  by (simp_all add: pressed_def)

lemma pressed_empty_row:
  assumes "row_item evt = Some i" "length (priv_items s) \<le> i \<or> priv_items s ! i = []"
  shows "pressed s evt = Inr s"
  using assms by (auto simp: pressed_def Let_def)

lemma pressed_empty_cell:
  assumes "row_item evt = Some i" "i < length (priv_items s)"
    and "column evt = [CHR ''#'', digit_char n]" "1 \<le> n" "n \<le> 9"
    and "n \<le> length (priv_items s ! i)" "priv_items s ! i ! (n - 1) = []"
  shows "pressed s evt = Inr s"
proof -
  let ?vals = "map convert_stringval (priv_items s ! i)"
  have c: "py_index (column evt) 1 = Inr (digit_char n)" by (simp add: assms(3) py_index_def)
  have n: "int_of_string [digit_char n] = Some (int n)"
    using assms(5) by (intro one_digit_read_back) simp
  have "py_index ?vals (int n - 1) = Inr (?vals ! (n - 1))"
    using assms(4,6) by (simp add: py_index_def nat_diff_distrib)
  moreover have "?vals ! (n - 1) = TkStr []"
    using assms(4,6,7) by (simp add: convert_stringval_def)
  ultimately have t: "py_index ?vals (int n - 1) = Inr (TkStr [])" by simp
  have ne: "length ?vals \<noteq> 0" using assms(4,6) by auto
  have chr: "column evt \<noteq> []" by (simp add: assms(3))
  show ?thesis
    unfolding pressed_def Let_def
    by (simp only: chr if_False assms(1) option.case assms(2) linorder_not_le [symmetric]
        ne c n t and_then_simps truthy.simps) simp
qed

lemma selection_nothing_iff: "(selection s = Inr None) = (priv_selection s = None)"
proof (cases "priv_selection s")
  case None
  then show ?thesis by (simp add: selection_def)
next
  case (Some sel)
  obtain t i c where sel: "sel = (t, i, c)" by (cases sel)
  have "and_then (datetime_new y m d) (\<lambda>dt. Inr (Some dt)) \<noteq> Inr None" for y m d
    by (simp add: datetime_new_def)
  then show ?thesis using Some sel by (simp add: selection_def split: option.split)
qed

lemma leading_cell_empty:
  assumes "1 \<le> y" "y \<le> 9999" "1 \<le> m" "m \<le> 12" and "weekday y m 1 \<noteq> SUNDAY"
  shows "\<exists>s. Calendar_init y m = Inr s \<and> priv_selection s = None
           \<and> 0 < length (priv_items s) \<and> 1 \<le> length (priv_items s ! 0)
           \<and> priv_items s ! 0 ! 0 = []"
proof -
  have u: "year (priv_date (unbuilt y m)) = y" "month (priv_date (unbuilt y m)) = m"
    by (simp_all add: unbuilt_def)
  from build_calendar_items [OF u assms(3,4)] obtain cal b a where
    c: "build_calendar (unbuilt y m)
          = Inr ((unbuilt y m)\<lparr>priv_items := map fmt_week cal @ replicate (6 - length cal) []\<rparr>)"
      "4 \<le> length cal" "\<forall>wk \<in> set cal. length wk = 7"
      "concat cal = replicate b 0 @ [1..days_in_month y m] @ replicate a 0"
      "(b = 0) = (weekday y m 1 = SUNDAY)" by (elim exE conjE) (rule that)
  from c(2) obtain c0 rest where cal: "cal = c0 # rest" by (cases cal) auto
  with c(3) have l0: "length c0 = 7" by simp
  from c(5) assms(5) obtain b' where b: "b = Suc b'" by (cases b) auto
  have "c0 ! 0 = concat cal ! 0" using l0 by (simp add: cal nth_append)
  also have "\<dots> = 0" by (simp add: c(4) b)
  finally have z: "c0 ! 0 = 0" .
  have f0: "fmt_week c0 ! 0 = []" using l0 z by (simp add: fmt_week_def)
  let ?s = "(unbuilt y m)\<lparr>priv_items := map fmt_week cal @ replicate (6 - length cal) []\<rparr>"
  have "Calendar_init y m = Inr ?s" using Calendar_init_builds [OF assms(1-4)] c(1) by simp
  moreover have "priv_selection ?s = None" by (simp add: unbuilt_def)
  moreover have "0 < length (priv_items ?s)" by (simp add: cal)
  moreover have "1 \<le> length (priv_items ?s ! 0)" using l0 by (simp add: cal fmt_week_def)
  moreover have "priv_items ?s ! 0 ! 0 = []" using f0 by (simp add: cal)
  ultimately show ?thesis by blast
qed

lemma click_on_leading_cell:
  assumes "1 \<le> y" "y \<le> 9999" "1 \<le> m" "m \<le> 12" and "weekday y m 1 \<noteq> SUNDAY"
  shows "and_then (Calendar_init y m) (click_on 0 1) = Calendar_init y m"
    "and_then (and_then (Calendar_init y m) (click_on 0 1)) selection = Inr None"
proof -
  from leading_cell_empty [OF assms] obtain s where
    s: "Calendar_init y m = Inr s" "priv_selection s = None" "0 < length (priv_items s)"
      "1 \<le> length (priv_items s ! 0)" "priv_items s ! 0 ! 0 = []" by blast
  let ?e = "\<lparr>row_item = Some 0, column = CHR ''#'' # decimal 1, bbox = Some (0, 0, 20, 20)\<rparr>"
  have d1: "decimal 1 = [digit_char 1]" by (rule decimal_small) simp
  have col: "column ?e = [CHR ''#'', digit_char 1]" by (simp only: event.simps d1)
  have ri: "row_item ?e = Some 0" by simp
  have le: "(1::nat) \<le> 1" "(1::nat) \<le> 9" by simp_all
  have cell: "priv_items s ! 0 ! (1 - 1) = []" using s(5) by simp
  have "pressed s ?e = Inr s"
    by (rule pressed_empty_cell [OF ri s(3) col le s(4) cell])
  then have p: "click_on 0 1 s = Inr s" unfolding click_on_def .
  show "and_then (Calendar_init y m) (click_on 0 1) = Calendar_init y m"
    by (simp only: s(1) and_then_simps p)
  show "and_then (and_then (Calendar_init y m) (click_on 0 1)) selection = Inr None"
    by (simp only: s(1) and_then_simps p selection_nothing_iff s(2))
qed

text \<open>
  C8. A click leaves the calendar as it is, stored selection included, and raises
  nothing, when it falls outside the columns or on no row of the month grid, on a row
  that holds no week of the month, or on a cell without a day. In particular, in a month
  that does not start on a Sunday, a click on the first cell of the first row of a new
  calendar changes nothing and the selection is still nothing.
\<close>

theorem inert_click:
  "(column evt = [] \<or> row_item evt = None
      \<or> (\<exists>i. row_item evt = Some i \<and> (length (priv_items s) \<le> i \<or> priv_items s ! i = []))
      \<or> (\<exists>i n. row_item evt = Some i \<and> i < length (priv_items s)
            \<and> column evt = [CHR ''#'', digit_char n] \<and> 1 \<le> n \<and> n \<le> 9
            \<and> n \<le> length (priv_items s ! i) \<and> priv_items s ! i ! (n - 1) = [])
     \<longrightarrow> pressed s evt = Inr s)
   \<and> (1 \<le> y \<and> y \<le> 9999 \<and> 1 \<le> m \<and> m \<le> 12 \<and> weekday y m 1 \<noteq> SUNDAY
     \<longrightarrow> and_then (Calendar_init y m) (click_on 0 1) = Calendar_init y m
       \<and> and_then (and_then (Calendar_init y m) (click_on 0 1)) selection = Inr None)"
proof (intro conjI impI)
  assume "column evt = [] \<or> row_item evt = None
      \<or> (\<exists>i. row_item evt = Some i \<and> (length (priv_items s) \<le> i \<or> priv_items s ! i = []))
      \<or> (\<exists>i n. row_item evt = Some i \<and> i < length (priv_items s)
            \<and> column evt = [CHR ''#'', digit_char n] \<and> 1 \<le> n \<and> n \<le> 9
            \<and> n \<le> length (priv_items s ! i) \<and> priv_items s ! i ! (n - 1) = [])"
  then consider "column evt = []" | "row_item evt = None"
    | i where "row_item evt = Some i" "length (priv_items s) \<le> i \<or> priv_items s ! i = []"
    | i n where "row_item evt = Some i" "i < length (priv_items s)"
        "column evt = [CHR ''#'', digit_char n]" "1 \<le> n" "n \<le> 9"
        "n \<le> length (priv_items s ! i)" "priv_items s ! i ! (n - 1) = []"
    by (elim disjE exE conjE) blast+
  then show "pressed s evt = Inr s"
  proof cases
    case 1
    then show ?thesis by (rule pressed_outside)
  next
    case 2
    then show ?thesis by (rule pressed_outside)
  next
    case 3
    then show ?thesis by (rule pressed_empty_row)
  next
    case 4
    then show ?thesis by (rule pressed_empty_cell)
  qed
next
  assume a: "1 \<le> y \<and> y \<le> 9999 \<and> 1 \<le> m \<and> m \<le> 12 \<and> weekday y m 1 \<noteq> SUNDAY"
  then show "and_then (Calendar_init y m) (click_on 0 1) = Calendar_init y m"
    by (intro click_on_leading_cell) simp_all
  from a show "and_then (and_then (Calendar_init y m) (click_on 0 1)) selection = Inr None"
    by (intro click_on_leading_cell) simp_all
qed

theorem inert_click_witness:
  "pressed (unbuilt 2023 2) \<lparr>row_item = Some 5, column = ''#1'', bbox = None\<rparr>
     = Inr (unbuilt 2023 2)
   \<and> weekday 2023 2 1 = 2
   \<and> and_then (Calendar_init 2023 2) (click_on 0 1) = Calendar_init 2023 2
   \<and> and_then (and_then (Calendar_init 2023 2) (click_on 0 1)) selection = Inr None"
proof -
  have w: "weekday 2023 2 1 = 2" by code_simp
  have r: "priv_items (unbuilt 2023 2) ! 5 = []" by (simp add: unbuilt_def)
  have h1: "row_item \<lparr>row_item = Some 5, column = ''#1'', bbox = None\<rparr> = Some 5
      \<and> (length (priv_items (unbuilt 2023 2)) \<le> 5 \<or> priv_items (unbuilt 2023 2) ! 5 = [])"
    by (simp add: r)
  have h2: "(1::int) \<le> 2023 \<and> (2023::int) \<le> 9999 \<and> (1::int) \<le> 2 \<and> (2::int) \<le> 12
      \<and> weekday 2023 2 1 \<noteq> SUNDAY"
    by (simp add: w SUNDAY_def)
  show ?thesis
    using inert_click [of "\<lparr>row_item = Some 5, column = ''#1'', bbox = None\<rparr>" "unbuilt 2023 2" 2023 2]
      h1 h2 w by blast
qed

text \<open>
  C10. A reachable state in which \<^verbatim>\<open>selection\<close> raises: a click on the 31st of
  January 2023 (row 4, column 3) selects that day; after \<^verbatim>\<open>_next_month\<close> the calendar shows
  February 2023 and \<^verbatim>\<open>selection\<close> builds the date from this month and the stored day 31,
  which \<^verbatim>\<open>datetime\<close> refuses with ValueError.
\<close>

theorem selection_raises_in_shorter_month:
  "and_then (and_then (Calendar_init 2023 1) (click_on 4 3)) selection
     = Inr (Some \<lparr>year = 2023, month = 1, day = 31\<rparr>)
   \<and> year_month (and_then (and_then (Calendar_init 2023 1) (click_on 4 3)) next_month)
     = Inr (2023, 2)
   \<and> and_then (and_then (and_then (Calendar_init 2023 1) (click_on 4 3)) next_month) selection
     = Inl ValueError"
  by code_simp











end
